theory Spec2Isabelle
  imports Main "HOL-Library.Sublist"
begin

section \<open>Shared conventions\<close>

text \<open>
  A Go \<^verbatim>\<open>string\<close> is a sequence of bytes; it is modelled as a \<^typ>\<open>string\<close>, whose
  elements are 8-bit characters. A Go \<^verbatim>\<open>int\<close> is modelled as an \<^typ>\<open>int\<close>: the
  modelled code only compares integers and adds or subtracts one to slice lengths, slice
  indices and line numbers, so the 64-bit range is never left. A pointer \<^verbatim>\<open>*Entry\<close> is an address into an
  explicit store of entries; an address the store does not hold is the nil pointer, and
  dereferencing it is the run-time panic of the source. A run-time panic is a value of
  type \<open>panic\<close>, returned on the left of a sum.
\<close>

datatype panic = NilDereference | IndexOutOfRange | SliceBoundsOutOfRange

type_synonym addr = nat

text \<open>
  The Unicode data of the Go library is not part of the repository. The range tables
  \<^verbatim>\<open>unicode.Letter\<close> and \<^verbatim>\<open>unicode.Digit\<close> beyond Latin-1 (as predicates on code points) and
  the case mappings \<^verbatim>\<open>strings.ToUpper\<close> and \<^verbatim>\<open>strings.ToLower\<close> are parameters of the model,
  collected in the record \<open>golib\<close>; every theorem holds for every choice of them.
\<close>

record golib =
  unicode_Letter :: "nat \<Rightarrow> bool"
  unicode_Digit :: "nat \<Rightarrow> bool"
  strings_ToUpper :: "string \<Rightarrow> string"
  strings_ToLower :: "string \<Rightarrow> string"

section \<open>Change history (internal/model/changestack.go)\<close>

datatype ChangeType = ChangeTypeAdd | ChangeTypeUpdate | ChangeTypeDelete

record Change =
  Type :: ChangeType
  FilePath :: string
  Entry :: addr
  OldValue :: string

record ChangeStack =
  changes :: "Change list"
  current :: int
  maxSize :: int

definition NewChangeStack :: "int \<Rightarrow> ChangeStack" where
  "NewChangeStack m = \<lparr>changes = [], current = - 1, maxSize = m\<rparr>"

text \<open>
  \<^verbatim>\<open>cs.changes[:cs.current+1]\<close> panics when the upper bound is negative; the guard
  \<^verbatim>\<open>cs.current < len(cs.changes)-1\<close> keeps it within the length. \<^verbatim>\<open>cs.changes[1:]\<close> is
  reached only after the append, when the slice is not empty.
\<close>

definition Push :: "ChangeStack \<Rightarrow> Change \<Rightarrow> panic + ChangeStack" where
  "Push cs change =
     (if current cs < int (length (changes cs)) - 1 \<and> current cs + 1 < 0
      then Inl SliceBoundsOutOfRange
      else
        let cs1 = (if current cs < int (length (changes cs)) - 1
                   then cs\<lparr>changes := take (nat (current cs + 1)) (changes cs)\<rparr>
                   else cs);
            cs2 = cs1\<lparr>changes := changes cs1 @ [change]\<rparr>;
            cs3 = cs2\<lparr>current := current cs2 + 1\<rparr>
        in if int (length (changes cs3)) > maxSize cs3
           then Inr (cs3\<lparr>changes := drop 1 (changes cs3), current := current cs3 - 1\<rparr>)
           else Inr cs3)"

text \<open>
  \<^verbatim>\<open>Undo\<close> and \<^verbatim>\<open>Redo\<close> return \<^verbatim>\<open>(*Change, bool)\<close>: \<^verbatim>\<open>(nil, false)\<close> is \<open>None\<close>, and
  \<^verbatim>\<open>(&change, true)\<close> is \<open>Some change\<close>. The stack after the call is returned with it.
\<close>

definition Undo :: "ChangeStack \<Rightarrow> panic + (ChangeStack \<times> Change option)" where
  "Undo cs =
     (if current cs < 0 then Inr (cs, None)
      else if current cs \<ge> int (length (changes cs)) then Inl IndexOutOfRange
      else Inr (cs\<lparr>current := current cs - 1\<rparr>, Some (changes cs ! nat (current cs))))"

definition Redo :: "ChangeStack \<Rightarrow> panic + (ChangeStack \<times> Change option)" where
  "Redo cs =
     (if current cs \<ge> int (length (changes cs)) - 1 then Inr (cs, None)
      else if current cs + 1 < 0 then Inl IndexOutOfRange
      else Inr (cs\<lparr>current := current cs + 1\<rparr>, Some (changes cs ! nat (current cs + 1))))"

definition CanUndo :: "ChangeStack \<Rightarrow> bool" where
  "CanUndo cs = (current cs \<ge> 0)"

definition CanRedo :: "ChangeStack \<Rightarrow> bool" where
  "CanRedo cs = (current cs < int (length (changes cs)) - 1)"

definition GetHistory :: "ChangeStack \<Rightarrow> Change list" where
  "GetHistory cs = changes cs"

text \<open>
  The state space of the engine: the cursor lies between \<open>-1\<close> and the last index.
  The fields are unexported and written only by the methods above, which keep it.
\<close>

definition cursor_ok :: "ChangeStack \<Rightarrow> bool" where
  "cursor_ok cs = (- 1 \<le> current cs \<and> current cs < int (length (changes cs)))"

section \<open>Document model (internal/model: entry and EnvFile operations)\<close>

datatype EntryType = KeyValueEntry | CommentEntry | BlankEntry

record Entry =
  Type :: EntryType
  Key :: string
  Value :: string
  Comment :: string
  Line :: int
  Exported :: bool
  IsSecret :: bool

text \<open>
  \<^verbatim>\<open>EnvFile.Entries\<close> is a slice of pointers \<^verbatim>\<open>[]*Entry\<close>: a list of addresses. The entries
  themselves live in the store, so that an in-place mutation through one pointer is seen
  through every copy of that pointer.
\<close>

type_synonym store = "addr \<Rightarrow> Entry option"

record EnvFile =
  Path :: string
  Entries :: "addr list"
  originalHash :: string
  isModified :: bool



definition AddEntry :: "EnvFile \<Rightarrow> addr \<Rightarrow> EnvFile" where
  "AddEntry ef entry = ef\<lparr>Entries := Entries ef @ [entry]\<rparr>"

text \<open>\<^verbatim>\<open>UpdateEntry\<close> writes through the pointer: the store changes, the slice does not.\<close>

fun UpdateEntry_loop :: "store \<Rightarrow> addr list \<Rightarrow> string \<Rightarrow> string \<Rightarrow> panic + (store \<times> bool)" where
  "UpdateEntry_loop h [] key val = Inr (h, False)"
| "UpdateEntry_loop h (p # ps) key val =
     (case h p of
        None \<Rightarrow> Inl NilDereference
      | Some entry \<Rightarrow>
          if Type entry = KeyValueEntry \<and> Key entry = key
          then Inr (h(p \<mapsto> entry\<lparr>Value := val\<rparr>), True)
          else UpdateEntry_loop h ps key val)"

definition UpdateEntry :: "store \<Rightarrow> EnvFile \<Rightarrow> string \<Rightarrow> string \<Rightarrow> panic + (store \<times> bool)" where
  "UpdateEntry h ef key val = UpdateEntry_loop h (Entries ef) key val"










text \<open>\<^verbatim>\<open>Entry.String\<close>, the text-rendering rule of each variant.\<close>

definition String :: "Entry \<Rightarrow> string" where
  "String e =
     (case Type e of
        KeyValueEntry \<Rightarrow>
          (let prefix = (if Exported e then ''export '' else []);
               suffix = (if Comment e \<noteq> [] then '' '' @ Comment e else [])
           in prefix @ Key e @ ''='' @ Value e @ suffix)
      | CommentEntry \<Rightarrow> Comment e
      | BlankEntry \<Rightarrow> [])"

section \<open>Go library functions used by the parser\<close>

text \<open>
  The parser calls \<^verbatim>\<open>strings.Split\<close>, \<^verbatim>\<open>strings.TrimSpace\<close>, \<^verbatim>\<open>strings.HasPrefix\<close>,
  \<^verbatim>\<open>strings.TrimPrefix\<close>, \<^verbatim>\<open>strings.Index\<close>, \<^verbatim>\<open>strings.Contains\<close>, \<^verbatim>\<open>strings.ToUpper\<close>,
  \<^verbatim>\<open>unicode.IsLetter\<close> and \<^verbatim>\<open>unicode.IsDigit\<close>, and ranges over a string by runes. These
  belong to the Go library, not to the repository; they are modelled here on bytes, after
  the library's documented behaviour, with the tables of \<open>golib\<close> beyond Latin-1.
\<close>

text \<open>\<^verbatim>\<open>strings.Split(s, sep)\<close> for a separator of one byte.\<close>

fun Split :: "string \<Rightarrow> char \<Rightarrow> string list" where
  "Split [] sep = [[]]"
| "Split (c # cs) sep =
     (if c = sep then [] # Split cs sep
      else (case Split cs sep of
              [] \<Rightarrow> [[c]]
            | l # ls \<Rightarrow> (c # l) # ls))"

text \<open>\<^verbatim>\<open>strings.Index(s, sep)\<close> for a separator of one byte; \<open>None\<close> is \<open>-1\<close>.\<close>

fun Index :: "string \<Rightarrow> char \<Rightarrow> nat option" where
  "Index [] sep = None"
| "Index (c # cs) sep = (if c = sep then Some 0 else map_option Suc (Index cs sep))"

definition HasPrefix :: "string \<Rightarrow> string \<Rightarrow> bool" where
  "HasPrefix s p = prefix p s"

definition TrimPrefix :: "string \<Rightarrow> string \<Rightarrow> string" where
  "TrimPrefix s p = (if HasPrefix s p then drop (length p) s else s)"

fun Contains :: "string \<Rightarrow> string \<Rightarrow> bool" where
  "Contains [] substr = (substr = [])"
| "Contains (c # cs) substr = (prefix substr (c # cs) \<or> Contains cs substr)"

text \<open>
  \<^verbatim>\<open>strings.TrimSpace\<close> removes the leading and then the trailing white space runes, as
  \<^verbatim>\<open>unicode.IsSpace\<close> defines them: tab, line feed, vertical tab, form feed, carriage
  return, space, U+0085, U+00A0, U+1680, U+2000 to U+200A, U+2028, U+2029, U+202F, U+205F
  and U+3000. A rune decoded at the start or at the end of a string is one of them exactly
  when the string starts or ends with its UTF-8 encoding, so the model strips these byte
  sequences.
\<close>

definition space_encodings :: "string list" where
  "space_encodings =
     [[CHR 0x09], [CHR 0x0A], [CHR 0x0B], [CHR 0x0C], [CHR 0x0D], [CHR 0x20],
      [CHR 0xC2, CHR 0x85], [CHR 0xC2, CHR 0xA0],
      [CHR 0xE1, CHR 0x9A, CHR 0x80],
      [CHR 0xE2, CHR 0x80, CHR 0x80], [CHR 0xE2, CHR 0x80, CHR 0x81],
      [CHR 0xE2, CHR 0x80, CHR 0x82], [CHR 0xE2, CHR 0x80, CHR 0x83],
      [CHR 0xE2, CHR 0x80, CHR 0x84], [CHR 0xE2, CHR 0x80, CHR 0x85],
      [CHR 0xE2, CHR 0x80, CHR 0x86], [CHR 0xE2, CHR 0x80, CHR 0x87],
      [CHR 0xE2, CHR 0x80, CHR 0x88], [CHR 0xE2, CHR 0x80, CHR 0x89],
      [CHR 0xE2, CHR 0x80, CHR 0x8A],
      [CHR 0xE2, CHR 0x80, CHR 0xA8], [CHR 0xE2, CHR 0x80, CHR 0xA9],
      [CHR 0xE2, CHR 0x80, CHR 0xAF],
      [CHR 0xE2, CHR 0x81, CHR 0x9F],
      [CHR 0xE3, CHR 0x80, CHR 0x80]]"

fun leadingSpace :: "string list \<Rightarrow> string \<Rightarrow> nat" where
  "leadingSpace [] s = 0"
| "leadingSpace (e # es) s = (if prefix e s then length e else leadingSpace es s)"

fun trailingSpace :: "string list \<Rightarrow> string \<Rightarrow> nat" where
  "trailingSpace [] s = 0"
| "trailingSpace (e # es) s = (if suffix e s then length e else trailingSpace es s)"

function TrimLeftSpace :: "string \<Rightarrow> string" where
  "TrimLeftSpace s =
     (if s = [] \<or> leadingSpace space_encodings s = 0 then s
      else TrimLeftSpace (drop (leadingSpace space_encodings s) s))"
  by pat_completeness auto
termination
  by (relation "measure length") auto

declare TrimLeftSpace.simps [simp del]

function TrimRightSpace :: "string \<Rightarrow> string" where
  "TrimRightSpace s =
     (if s = [] \<or> trailingSpace space_encodings s = 0 then s
      else TrimRightSpace (take (length s - trailingSpace space_encodings s) s))"
  by pat_completeness auto
termination
  by (relation "measure length") auto

declare TrimRightSpace.simps [simp del]

definition TrimSpace :: "string \<Rightarrow> string" where
  "TrimSpace s = TrimRightSpace (TrimLeftSpace s)"

text \<open>
  \<^verbatim>\<open>utf8.DecodeRuneInString\<close>: the rune at the start of a string and its width in bytes.
  A byte that starts no well-formed encoding (too short, overlong, a surrogate, beyond
  U+10FFFF) decodes as \<^verbatim>\<open>RuneError\<close> = U+FFFD of width 1. \<^verbatim>\<open>for i, ch := range key\<close>
  decodes the string this way, rune after rune.
\<close>

definition inRange :: "char \<Rightarrow> nat \<Rightarrow> nat \<Rightarrow> bool" where
  "inRange c lo hi = (lo \<le> of_char c \<and> of_char c \<le> hi)"

definition continuation :: "char \<Rightarrow> nat" where
  "continuation c = of_char c - 0x80"

fun decodeRune :: "string \<Rightarrow> nat \<times> nat" where
  "decodeRune [] = (0xFFFD, 0)"
| "decodeRune (b0 # bs) =
     (let x = (of_char b0 :: nat) in
      if x < 0x80 then (x, 1)
      else if 0xC2 \<le> x \<and> x \<le> 0xDF then
        (case bs of
           b1 # _ \<Rightarrow>
             if inRange b1 0x80 0xBF
             then ((x - 0xC0) * 64 + continuation b1, 2)
             else (0xFFFD, 1)
         | _ \<Rightarrow> (0xFFFD, 1))
      else if 0xE0 \<le> x \<and> x \<le> 0xEF then
        (case bs of
           b1 # b2 # _ \<Rightarrow>
             if inRange b1 (if x = 0xE0 then 0xA0 else 0x80) (if x = 0xED then 0x9F else 0xBF)
                \<and> inRange b2 0x80 0xBF
             then ((x - 0xE0) * 4096 + continuation b1 * 64 + continuation b2, 3)
             else (0xFFFD, 1)
         | _ \<Rightarrow> (0xFFFD, 1))
      else if 0xF0 \<le> x \<and> x \<le> 0xF4 then
        (case bs of
           b1 # b2 # b3 # _ \<Rightarrow>
             if inRange b1 (if x = 0xF0 then 0x90 else 0x80) (if x = 0xF4 then 0x8F else 0xBF)
                \<and> inRange b2 0x80 0xBF \<and> inRange b3 0x80 0xBF
             then ((x - 0xF0) * 262144 + continuation b1 * 4096 + continuation b2 * 64
                   + continuation b3, 4)
             else (0xFFFD, 1)
         | _ \<Rightarrow> (0xFFFD, 1))
      else (0xFFFD, 1))"

fun runes :: "string \<Rightarrow> nat list" where
  "runes [] = []"
| "runes (b0 # bs) =
     fst (decodeRune (b0 # bs)) # runes (drop (snd (decodeRune (b0 # bs)) - 1) bs)"

text \<open>
  \<^verbatim>\<open>unicode.IsLetter\<close> and \<^verbatim>\<open>unicode.IsDigit\<close> answer from a fixed property table up to
  \<^verbatim>\<open>MaxLatin1\<close> = U+00FF and from the range tables \<^verbatim>\<open>unicode.Letter\<close> and \<^verbatim>\<open>unicode.Digit\<close>
  beyond it.
\<close>

definition latin1Letter :: "nat \<Rightarrow> bool" where
  "latin1Letter r =
     ((0x41 \<le> r \<and> r \<le> 0x5A) \<or> (0x61 \<le> r \<and> r \<le> 0x7A) \<or> r = 0xAA \<or> r = 0xB5 \<or> r = 0xBA
      \<or> (0xC0 \<le> r \<and> r \<le> 0xD6) \<or> (0xD8 \<le> r \<and> r \<le> 0xF6) \<or> (0xF8 \<le> r \<and> r \<le> 0xFF))"

definition IsLetter :: "golib \<Rightarrow> nat \<Rightarrow> bool" where
  "IsLetter L r = (if r \<le> 0xFF then latin1Letter r else unicode_Letter L r)"

definition IsDigit :: "golib \<Rightarrow> nat \<Rightarrow> bool" where
  "IsDigit L r = (if r \<le> 0xFF then 0x30 \<le> r \<and> r \<le> 0x39 else unicode_Digit L r)"

section \<open>Line parser (internal/parser/production.go)\<close>

text \<open>
  \<^verbatim>\<open>isValidKey\<close>: the loop over the runes of the key; \<open>first\<close> holds in the iteration with
  byte offset \<open>i == 0\<close>.
\<close>

fun isValidKey_loop :: "golib \<Rightarrow> bool \<Rightarrow> nat list \<Rightarrow> bool" where
  "isValidKey_loop L first [] = True"
| "isValidKey_loop L first (ch # rs) =
     (if first \<and> \<not> IsLetter L ch \<and> ch \<noteq> 0x5F then False
      else if \<not> IsLetter L ch \<and> \<not> IsDigit L ch \<and> ch \<noteq> 0x5F then False
      else isValidKey_loop L False rs)"

definition isValidKey :: "golib \<Rightarrow> string \<Rightarrow> bool" where
  "isValidKey L key = (if length key = 0 then False else isValidKey_loop L True (runes key))"

definition secretKeywords :: "string list" where
  "secretKeywords =
     [''PASSWORD'', ''SECRET'', ''TOKEN'', ''KEY'', ''PRIVATE'',
      ''API_KEY'', ''AUTH'', ''CREDENTIAL'', ''CERT'']"

fun isSecretKey_loop :: "string \<Rightarrow> string list \<Rightarrow> bool" where
  "isSecretKey_loop upperKey [] = False"
| "isSecretKey_loop upperKey (keyword # keywords) =
     (if Contains upperKey keyword then True else isSecretKey_loop upperKey keywords)"

definition isSecretKey :: "golib \<Rightarrow> string \<Rightarrow> bool" where
  "isSecretKey L key = isSecretKey_loop (strings_ToUpper L key) secretKeywords"

text \<open>The \<^verbatim>\<open>switch next\<close> of \<^verbatim>\<open>parseQuotedValue\<close>: the byte written for an escape.\<close>

definition escaped :: "char \<Rightarrow> char" where
  "escaped next =
     (if next = CHR ''n'' then CHR 0x0A
      else if next = CHR ''t'' then CHR 0x09
      else if next = CHR ''r'' then CHR 0x0D
      else if next = CHR 0x5C then CHR 0x5C
      else if next = CHR 0x22 \<or> next = CHR 0x27 then next
      else next)"

text \<open>
  The two nested loops of \<^verbatim>\<open>parseQuotedValue\<close> as one recursion over its local state:
  the physical line being read, the index \<open>i\<close> in it, the number of further lines consumed
  and the builder's content. The result is the value and the number of lines consumed.
\<close>

function parseQuotedValue_loop ::
  "string list \<Rightarrow> nat \<Rightarrow> char \<Rightarrow> string \<Rightarrow> nat \<Rightarrow> nat \<Rightarrow> string \<Rightarrow> string \<times> nat" where
  "parseQuotedValue_loop lines currentLine quote currentLineStr i linesConsumed result =
     (if i < length currentLineStr then
        (let ch = currentLineStr ! i in
         if ch = CHR 0x5C \<and> i + 1 < length currentLineStr then
           parseQuotedValue_loop lines currentLine quote currentLineStr (i + 2) linesConsumed
             (result @ [escaped (currentLineStr ! (i + 1))])
         else if ch = quote then (result, linesConsumed)
         else
           parseQuotedValue_loop lines currentLine quote currentLineStr (i + 1) linesConsumed
             (result @ [ch]))
      else if currentLine + linesConsumed + 1 < length lines then
        parseQuotedValue_loop lines currentLine quote
          (lines ! (currentLine + (linesConsumed + 1))) 0 (linesConsumed + 1)
          (result @ [CHR 0x0A])
      else (result, linesConsumed))"
  by pat_completeness auto
termination
  by (relation "measures
        [\<lambda>(lines, currentLine, quote, currentLineStr, i, linesConsumed, result).
            length lines - (currentLine + linesConsumed),
         \<lambda>(lines, currentLine, quote, currentLineStr, i, linesConsumed, result).
            length currentLineStr - i]") auto

declare parseQuotedValue_loop.simps [simp del]

definition parseQuotedValue :: "string \<Rightarrow> char \<Rightarrow> string list \<Rightarrow> nat \<Rightarrow> string \<times> nat" where
  "parseQuotedValue valueStr quote lines currentLine =
     parseQuotedValue_loop lines currentLine quote valueStr 1 0 []"

definition parseValue :: "string \<Rightarrow> string list \<Rightarrow> nat \<Rightarrow> string \<times> nat" where
  "parseValue valueStr0 lines currentLine =
     (let valueStr = TrimSpace valueStr0 in
      if valueStr = [] then ([], 0)
      else if length valueStr > 0 \<and> (valueStr ! 0 = CHR 0x22 \<or> valueStr ! 0 = CHR 0x27)
      then parseQuotedValue valueStr (valueStr ! 0) lines currentLine
      else (case Index valueStr CHR ''#'' of
              Some idx \<Rightarrow> (TrimSpace (take idx valueStr), 0)
            | None \<Rightarrow> (valueStr, 0)))"

text \<open>
  The loop of \<^verbatim>\<open>Parse\<close> over the line index \<open>i\<close> (0-based), appending to the entries built
  so far. Every entry is a fresh allocation; the model keeps the entries themselves, in
  the order of \<^verbatim>\<open>envFile.Entries\<close>.
\<close>

function Parse_loop :: "golib \<Rightarrow> string list \<Rightarrow> nat \<Rightarrow> Entry list \<Rightarrow> Entry list" where
  "Parse_loop L lines i entries =
     (if i < length lines then
        (let line = lines ! i; trimmed = TrimSpace line in
         if trimmed = [] then
           Parse_loop L lines (i + 1)
             (entries @ [\<lparr>Type = BlankEntry, Key = [], Value = [], Comment = [],
                          Line = int i + 1, Exported = False, IsSecret = False\<rparr>])
         else if HasPrefix trimmed ''#'' then
           Parse_loop L lines (i + 1)
             (entries @ [\<lparr>Type = CommentEntry, Key = [], Value = [], Comment = line,
                          Line = int i + 1, Exported = False, IsSecret = False\<rparr>])
         else
           (let exported = HasPrefix trimmed ''export '';
                trimmed = (if exported then TrimSpace (TrimPrefix trimmed ''export '')
                           else trimmed)
            in case Index trimmed CHR ''='' of
                 None \<Rightarrow> Parse_loop L lines (i + 1) entries
               | Some eqIdx \<Rightarrow>
                   (let key = TrimSpace (take eqIdx trimmed) in
                    if key = [] \<or> \<not> isValidKey L key then Parse_loop L lines (i + 1) entries
                    else
                      (let valueStr = drop (eqIdx + 1) trimmed;
                           (val, consumed) = parseValue valueStr lines i;
                           i' = i + consumed
                       in Parse_loop L lines (i' + 1)
                            (entries @ [\<lparr>Type = KeyValueEntry, Key = key, Value = val,
                                         Comment = [], Line = int i' + 1,
                                         Exported = exported,
                                         IsSecret = isSecretKey L key\<rparr>])))))
      else entries)"
  by pat_completeness auto
termination
  by (relation "measure (\<lambda>(L, lines, i, entries). length lines - i)") auto

declare Parse_loop.simps [simp del]

text \<open>
  \<^verbatim>\<open>Parse\<close> returns \<^verbatim>\<open>(envFile, nil)\<close> on its only return path: the entries and no
  error.
\<close>

datatype error = Errorf string "error option"

definition Parse :: "golib \<Rightarrow> string \<Rightarrow> Entry list \<times> error option" where
  "Parse L input = (Parse_loop L (Split input CHR 0x0A) 0 [], None)"

section \<open>Persistence (internal/storage/file.go, internal/storage/backup.go)\<close>

text \<open>
  The file system is a map from paths to file contents; two different path strings name
  two different files (no links, no path normalisation). Every call into the operating
  system either succeeds with its effect or fails; which calls fail is the environment's
  choice, given by the record \<open>faults\<close>. A failed \<^verbatim>\<open>os.Open\<close>, \<^verbatim>\<open>os.Create\<close>,
  \<^verbatim>\<open>File.Sync\<close>, \<^verbatim>\<open>os.Rename\<close> or \<^verbatim>\<open>os.Remove\<close> leaves the file system as it was; a failed
  \<^verbatim>\<open>io.Copy\<close> or \<^verbatim>\<open>WriteString\<close> may have written a part of its data. \<open>now\<close> is
  \<^verbatim>\<open>time.Now().Format("20060102-150405")\<close>.
\<close>

type_synonym filesystem = "string \<Rightarrow> string option"

record faults =
  stat_fails :: bool
  open_fails :: bool
  create_backup_fails :: bool
  copy_fails :: "nat option"
  create_temp_fails :: bool
  write_fails :: "(nat \<times> nat) option"
  sync_fails :: bool
  rename_fails :: bool
  remove_fails :: bool

definition os_error :: error where
  "os_error = Errorf ''os'' None"

definition copyFile :: "filesystem \<Rightarrow> faults \<Rightarrow> string \<Rightarrow> string \<Rightarrow> filesystem \<times> error option" where
  "copyFile fs F src dst =
     (case fs src of
        None \<Rightarrow> (fs, Some os_error)
      | Some content \<Rightarrow>
          if open_fails F then (fs, Some os_error)
          else if create_backup_fails F then (fs, Some os_error)
          else (case copy_fails F of
                  Some n \<Rightarrow> (fs(dst \<mapsto> take n content), Some os_error)
                | None \<Rightarrow> (fs(dst \<mapsto> content), None)))"

text \<open>
  \<^verbatim>\<open>CreateBackup\<close> returns early only when \<^verbatim>\<open>os.Stat\<close> reports that the file does not
  exist; with any other answer it copies.
\<close>

definition CreateBackup :: "filesystem \<Rightarrow> faults \<Rightarrow> string \<Rightarrow> string \<Rightarrow> filesystem \<times> error option" where
  "CreateBackup fs F now path =
     (if fs path = None \<and> \<not> stat_fails F then (fs, None)
      else copyFile fs F path (path @ ''.backup.'' @ now))"

definition createBackup :: "filesystem \<Rightarrow> faults \<Rightarrow> string \<Rightarrow> string \<Rightarrow> filesystem \<times> error option" where
  "createBackup fs F now path = CreateBackup fs F now path"

text \<open>
  The write loop of \<^verbatim>\<open>WriteFile\<close>: \<open>k\<close> counts the calls of \<^verbatim>\<open>WriteString\<close>, \<open>content\<close> is
  what the temporary file holds so far. The result is the content and the error of the
  failed call, if any.
\<close>

fun write_loop ::
  "store \<Rightarrow> faults \<Rightarrow> addr list \<Rightarrow> nat \<Rightarrow> string \<Rightarrow> panic + (string \<times> error option)" where
  "write_loop h F [] k content = Inr (content, None)"
| "write_loop h F (p # ps) k content =
     (case h p of
        None \<Rightarrow> Inl NilDereference
      | Some entry \<Rightarrow>
          (case write_fails F of
             Some (k', n) \<Rightarrow>
               if k' = k then Inr (content @ take n (String entry @ [CHR 0x0A]), Some os_error)
               else write_loop h F ps (k + 1) (content @ String entry @ [CHR 0x0A])
           | None \<Rightarrow> write_loop h F ps (k + 1) (content @ String entry @ [CHR 0x0A])))"

definition WriteFile ::
  "store \<Rightarrow> filesystem \<Rightarrow> faults \<Rightarrow> string \<Rightarrow> EnvFile \<Rightarrow> panic + (filesystem \<times> error option)" where
  "WriteFile h fs F now envFile =
     (case createBackup fs F now (Path envFile) of
        (fs1, Some err) \<Rightarrow> Inr (fs1, Some (Errorf ''failed to create backup: %w'' (Some err)))
      | (fs1, None) \<Rightarrow>
          (let tempPath = Path envFile @ ''.tmp'' in
           if create_temp_fails F
           then Inr (fs1, Some (Errorf ''failed to create temp file: %w'' (Some os_error)))
           else
             (case write_loop h F (Entries envFile) 0 [] of
                Inl p \<Rightarrow> Inl p
              | Inr (content, Some err) \<Rightarrow>
                  Inr (fs1(tempPath \<mapsto> content),
                       Some (Errorf ''failed to write entry: %w'' (Some err)))
              | Inr (content, None) \<Rightarrow>
                  (let fs2 = fs1(tempPath \<mapsto> content) in
                   if sync_fails F
                   then Inr (fs2, Some (Errorf ''failed to sync temp file: %w'' (Some os_error)))
                   else if rename_fails F
                   then Inr (if remove_fails F then fs2 else fs2(tempPath := None),
                             Some (Errorf ''failed to rename temp file: %w'' (Some os_error)))
                   else Inr (fs2(Path envFile \<mapsto> content, tempPath := None), None)))))"

text \<open>The text \<^verbatim>\<open>WriteFile\<close> writes for a document whose entries are \<open>es\<close>.\<close>

definition serialize :: "Entry list \<Rightarrow> string" where
  "serialize es = concat (map (\<lambda>e. String e @ [CHR 0x0A]) es)"

section \<open>Specification-side definitions and concrete inputs\<close>

text \<open>
  \<open>push_spec\<close> follows the specification's words for \<open>push\<close>: truncate the entries after
  \<open>current\<close>, append the change, advance \<open>current\<close>; if the list exceeds the capacity,
  drop the oldest element and decrement \<open>current\<close>.
\<close>

definition push_spec :: "ChangeStack \<Rightarrow> Change \<Rightarrow> ChangeStack" where
  "push_spec cs c =
     (let appended = take (nat (current cs + 1)) (changes cs) @ [c];
          advanced = current cs + 1
      in if int (length appended) > maxSize cs
         then cs\<lparr>changes := tl appended, current := advanced - 1\<rparr>
         else cs\<lparr>changes := appended, current := advanced\<rparr>)"

text \<open>Three changes and stacks built from them, for the concrete instances below.\<close>

definition change_A :: Change where
  "change_A = \<lparr>Change.Type = ChangeTypeAdd, FilePath = ''.env'', Entry = 1, OldValue = []\<rparr>"

definition change_B :: Change where
  "change_B = \<lparr>Change.Type = ChangeTypeUpdate, FilePath = ''.env'', Entry = 2, OldValue = ''old''\<rparr>"

definition change_C :: Change where
  "change_C = \<lparr>Change.Type = ChangeTypeDelete, FilePath = ''.env'', Entry = 3, OldValue = []\<rparr>"

definition stack_AB :: ChangeStack where
  "stack_AB = \<lparr>changes = [change_A, change_B], current = 1, maxSize = 100\<rparr>"

text \<open>
  The document operations are specified over the entries a document points to.
  \<open>allocated\<close>: no pointer of the slice is nil. \<open>isKeyValue\<close>: the pointer's entry is a
  key-value entry. \<open>keyMatches\<close>: it is a key-value entry with the given key.
  \<open>fuzzy_spec\<close>: it is a key-value entry and the bytes of the (lowercased) query are a
  subsequence of the bytes of its lowercased key or of its lowercased value.
\<close>

definition allocated :: "store \<Rightarrow> addr list \<Rightarrow> bool" where
  "allocated h ps = list_all (\<lambda>p. h p \<noteq> None) ps"


definition keyMatches :: "store \<Rightarrow> string \<Rightarrow> addr \<Rightarrow> bool" where
  "keyMatches h key p =
     (case h p of None \<Rightarrow> False | Some e \<Rightarrow> Type e = KeyValueEntry \<and> Key e = key)"


text \<open>
  A concrete store and document: a comment whose key field is set to \<open>DEBUG\<close>, two
  key-value entries with the key \<open>DEBUG\<close>, a blank line and one more key-value entry.
\<close>

definition entry_comment :: Entry where
  "entry_comment = \<lparr>Type = CommentEntry, Key = ''DEBUG'', Value = [], Comment = ''# settings'',
                     Line = 1, Exported = False, IsSecret = False\<rparr>"

definition entry_debug1 :: Entry where
  "entry_debug1 = \<lparr>Type = KeyValueEntry, Key = ''DEBUG'', Value = ''false'', Comment = ''# off'',
                    Line = 2, Exported = True, IsSecret = False\<rparr>"

definition entry_blank :: Entry where
  "entry_blank = \<lparr>Type = BlankEntry, Key = [], Value = [], Comment = [],
                   Line = 3, Exported = False, IsSecret = False\<rparr>"

definition entry_debug2 :: Entry where
  "entry_debug2 = \<lparr>Type = KeyValueEntry, Key = ''DEBUG'', Value = ''true'', Comment = [],
                    Line = 4, Exported = False, IsSecret = False\<rparr>"

definition entry_url :: Entry where
  "entry_url = \<lparr>Type = KeyValueEntry, Key = ''API_URL'', Value = ''http://Localhost'', Comment = [],
                 Line = 5, Exported = False, IsSecret = False\<rparr>"





definition demo_store :: store where
  "demo_store =
     [10 \<mapsto> entry_comment, 11 \<mapsto> entry_debug1, 12 \<mapsto> entry_blank, 13 \<mapsto> entry_debug2,
      14 \<mapsto> entry_url]"

definition demo_file :: EnvFile where
  "demo_file = \<lparr>Path = ''.env'', Entries = [10, 11, 12, 13, 14], originalHash = [],
                 isModified = False\<rparr>"


text \<open>
  \<open>rename_reached\<close>: every step of \<^verbatim>\<open>WriteFile\<close> before \<^verbatim>\<open>os.Rename\<close> succeeds, so that the
  rename is attempted. \<open>demo_fs\<close> holds an earlier version of the demo document;
  \<open>rename_fault\<close> and \<open>rename_remove_fault\<close> are environments in which the rename fails,
  and in the second the removal of the temporary file fails as well.
\<close>

definition rename_reached :: "store \<Rightarrow> filesystem \<Rightarrow> faults \<Rightarrow> string \<Rightarrow> EnvFile \<Rightarrow> bool" where
  "rename_reached h fs F now envFile =
     (snd (createBackup fs F now (Path envFile)) = None \<and> \<not> create_temp_fails F \<and>
      (case write_loop h F (Entries envFile) 0 [] of
         Inr (content, None) \<Rightarrow> True
       | _ \<Rightarrow> False) \<and>
      \<not> sync_fails F)"

definition demo_fs :: filesystem where
  "demo_fs = [''.env'' \<mapsto> ''DEBUG=old'' @ [CHR 0x0A]]"

definition rename_fault :: faults where
  "rename_fault =
     \<lparr>stat_fails = False, open_fails = False, create_backup_fails = False, copy_fails = None,
      create_temp_fails = False, write_fails = None, sync_fails = False,
      rename_fails = True, remove_fails = False\<rparr>"

definition rename_remove_fault :: faults where
  "rename_remove_fault = rename_fault\<lparr>remove_fails := True\<rparr>"

definition demo_text :: string where
  "demo_text =
     ''# settings'' @ [CHR 0x0A] @ ''export DEBUG=false # off'' @ [CHR 0x0A] @ [CHR 0x0A] @
     ''DEBUG=true'' @ [CHR 0x0A] @ ''API_URL=http://Localhost'' @ [CHR 0x0A]"







text \<open>
  \<open>ascii_lib\<close> is a Go library restricted to Latin-1: empty range tables beyond U+00FF
  and case mappings of the ASCII letters. On text whose runes are all below U+0100 and
  whose letters are ASCII it agrees with the real library.
\<close>

definition ascii_lower :: "char \<Rightarrow> char" where
  "ascii_lower c =
     (if (0x41::nat) \<le> of_char c \<and> of_char c \<le> (0x5A::nat) then char_of (of_char c + (32::nat))
      else c)"

definition ascii_upper :: "char \<Rightarrow> char" where
  "ascii_upper c =
     (if (0x61::nat) \<le> of_char c \<and> of_char c \<le> (0x7A::nat) then char_of (of_char c - (32::nat))
      else c)"

definition no_rune :: "nat \<Rightarrow> bool" where
  "no_rune r = False"

definition ascii_lib :: golib where
  "ascii_lib =
     \<lparr>unicode_Letter = no_rune, unicode_Digit = no_rune, strings_ToUpper = map ascii_upper,
      strings_ToLower = map ascii_lower\<rparr>"

text \<open>
  The identifier shapes. \<open>ident_shape\<close>: the first rune is a letter or an underscore and
  every further rune is a letter, a digit or an underscore, with the letters and digits of
  \<^verbatim>\<open>unicode.IsLetter\<close> and \<^verbatim>\<open>unicode.IsDigit\<close>. \<open>ascii_ident\<close>: the specification's
  \<^verbatim>\<open>[A-Za-z_][A-Za-z0-9_]*\<close>.
\<close>

definition ident_rune :: "golib \<Rightarrow> nat \<Rightarrow> bool" where
  "ident_rune L r = (IsLetter L r \<or> IsDigit L r \<or> r = 0x5F)"

definition ident_shape :: "golib \<Rightarrow> string \<Rightarrow> bool" where
  "ident_shape L key =
     (case runes key of
        [] \<Rightarrow> False
      | r # rs \<Rightarrow> (IsLetter L r \<or> r = 0x5F) \<and> list_all (ident_rune L) rs)"

definition ascii_letter :: "char \<Rightarrow> bool" where
  "ascii_letter c = (((0x41::nat) \<le> of_char c \<and> of_char c \<le> (0x5A::nat)) \<or>
                     ((0x61::nat) \<le> of_char c \<and> of_char c \<le> (0x7A::nat)))"

definition ascii_digit :: "char \<Rightarrow> bool" where
  "ascii_digit c = ((0x30::nat) \<le> of_char c \<and> of_char c \<le> (0x39::nat))"

definition ascii_ident_char :: "char \<Rightarrow> bool" where
  "ascii_ident_char c = (ascii_letter c \<or> ascii_digit c \<or> c = CHR ''_'')"

definition ascii_ident :: "string \<Rightarrow> bool" where
  "ascii_ident key =
     (case key of
        [] \<Rightarrow> False
      | c # cs \<Rightarrow> (ascii_letter c \<or> c = CHR ''_'') \<and> list_all ascii_ident_char cs)"

text \<open>
  \<open>dropped_line ident\<close>: the line is not blank, not a comment, and, once an
  \<^verbatim>\<open>export\<close> prefix is stripped, either has no \<open>=\<close> or has a left-hand side (trimmed) that
  fails the identifier test \<open>ident\<close>.
\<close>

definition dropped_line :: "(string \<Rightarrow> bool) \<Rightarrow> string \<Rightarrow> bool" where
  "dropped_line ident line =
     (let trimmed = TrimSpace line in
      trimmed \<noteq> [] \<and> \<not> HasPrefix trimmed ''#'' \<and>
      (let rest = (if HasPrefix trimmed ''export '' then TrimSpace (TrimPrefix trimmed ''export '')
                   else trimmed)
       in case Index rest CHR ''='' of
            None \<Rightarrow> True
          | Some eqIdx \<Rightarrow> \<not> ident (TrimSpace (take eqIdx rest))))"

definition eacute_line :: string where
  "eacute_line = [CHR 0xC3, CHR 0xA9] @ ''=1''"

definition junk_text :: string where
  "junk_text = ''not a pair'' @ [CHR 0x0A] @ ''1BAD=x'' @ [CHR 0x0A] @ ''export =y''"

text \<open>
  Round trip. \<open>kv_tuples\<close>: the \<open>(key, value, exported)\<close> tuples of the key-value entries,
  in order. \<open>plain_value\<close>: a value that the serialization \<open>key=value\<close> shows as it is:
  no white space at either end, no \<open>#\<close>, no line feed, no quote character at its start.
\<close>

definition kv_tuples :: "Entry list \<Rightarrow> (string \<times> string \<times> bool) list" where
  "kv_tuples es =
     map (\<lambda>e. (Key e, Value e, Exported e)) (filter (\<lambda>e. Type e = KeyValueEntry) es)"

definition plain_value :: "string \<Rightarrow> bool" where
  "plain_value v =
     (TrimSpace v = v \<and> CHR ''#'' \<notin> set v \<and> CHR 0x0A \<notin> set v \<and>
      (case v of [] \<Rightarrow> True | c # cs \<Rightarrow> c \<noteq> CHR 0x22 \<and> c \<noteq> CHR 0x27))"

definition plain_entry :: "Entry \<Rightarrow> bool" where
  "plain_entry e = (Type e = KeyValueEntry \<longrightarrow> plain_value (Value e))"

text \<open>
  One iteration of the loop of \<^verbatim>\<open>Parse\<close> at line index \<open>i\<close>: the entry it appends, if any,
  and the index of the next iteration. \<open>wf_entry\<close> collects what every entry built by
  \<^verbatim>\<open>Parse\<close> satisfies; \<open>same_kv\<close> relates an entry to its re-parsed form.
\<close>

definition parse_step :: "golib \<Rightarrow> string list \<Rightarrow> nat \<Rightarrow> Entry option \<times> nat" where
  "parse_step L lines i =
     (let line = lines ! i; trimmed = TrimSpace line in
      if trimmed = [] then
        (Some \<lparr>Type = BlankEntry, Key = [], Value = [], Comment = [],
               Line = int i + 1, Exported = False, IsSecret = False\<rparr>, i + 1)
      else if HasPrefix trimmed ''#'' then
        (Some \<lparr>Type = CommentEntry, Key = [], Value = [], Comment = line,
               Line = int i + 1, Exported = False, IsSecret = False\<rparr>, i + 1)
      else
        (let exported = HasPrefix trimmed ''export '';
             rest = (if exported then TrimSpace (TrimPrefix trimmed ''export '') else trimmed)
         in case Index rest CHR ''='' of
              None \<Rightarrow> (None, i + 1)
            | Some eqIdx \<Rightarrow>
                (let key = TrimSpace (take eqIdx rest) in
                 if key = [] \<or> \<not> isValidKey L key then (None, i + 1)
                 else
                   (let parsed = parseValue (drop (eqIdx + 1) rest) lines i;
                        i' = i + snd parsed
                    in (Some \<lparr>Type = KeyValueEntry, Key = key, Value = fst parsed,
                              Comment = [], Line = int i' + 1, Exported = exported,
                              IsSecret = isSecretKey L key\<rparr>, i' + 1)))))"

definition wf_entry :: "golib \<Rightarrow> Entry \<Rightarrow> bool" where
  "wf_entry L e =
     (case Type e of
        KeyValueEntry \<Rightarrow>
          Key e \<noteq> [] \<and> isValidKey L (Key e) \<and> TrimSpace (Key e) = Key e \<and>
          CHR ''='' \<notin> set (Key e) \<and> CHR 0x0A \<notin> set (Key e) \<and> Comment e = []
      | CommentEntry \<Rightarrow>
          TrimSpace (Comment e) \<noteq> [] \<and> HasPrefix (TrimSpace (Comment e)) ''#'' \<and>
          CHR 0x0A \<notin> set (Comment e)
      | BlankEntry \<Rightarrow> True)"

definition same_kv :: "Entry \<Rightarrow> Entry \<Rightarrow> bool" where
  "same_kv e e' =
     (Type e' = Type e \<and>
      (Type e = KeyValueEntry \<longrightarrow>
         Key e' = Key e \<and> Value e' = Value e \<and> Exported e' = Exported e))"

definition encoding_byte :: "char \<Rightarrow> bool" where
  "encoding_byte c = list_ex (\<lambda>e. c \<in> set e) space_encodings"

text \<open>
  Four one-line inputs with a double-quoted value: one holding a \<open>#\<close>, one starting with
  a space, one holding the escape for a line feed, one holding escaped quotes.
\<close>

definition hash_input :: string where
  "hash_input = ''K='' @ [CHR 0x22] @ ''a#b'' @ [CHR 0x22]"

definition space_input :: string where
  "space_input = ''K='' @ [CHR 0x22] @ '' a'' @ [CHR 0x22]"

definition newline_input :: string where
  "newline_input = ''K='' @ [CHR 0x22] @ ''a'' @ [CHR 0x5C] @ ''nb'' @ [CHR 0x22]"

definition quote_input :: string where
  "quote_input =
     ''K='' @ [CHR 0x22, CHR 0x5C, CHR 0x22] @ ''a'' @ [CHR 0x5C, CHR 0x22, CHR 0x22]"

definition roundtrip_input :: string where
  "roundtrip_input =
     ''# c'' @ [CHR 0x0A] @ ''export A='' @ [CHR 0x22] @ ''x y'' @ [CHR 0x22] @ [CHR 0x0A] @
     [CHR 0x0A] @ ''B=2 # note'' @ [CHR 0x0A] @ ''bad line''"

text \<open>
  \<open>starts_space\<close>, \<open>ends_space\<close>: the string starts, or ends, with the encoding of a white
  space rune.
\<close>

definition starts_space :: "string \<Rightarrow> bool" where
  "starts_space s = (\<exists>e\<in>set space_encodings. prefix e s)"

definition ends_space :: "string \<Rightarrow> bool" where
  "ends_space s = (\<exists>e\<in>set space_encodings. suffix e s)"

section \<open>Theorems: change history\<close>

lemma drop_1_tl: "drop (Suc 0) xs = tl xs"
  by (simp add: drop_Suc)

lemma butlast_tl_snoc: "set (butlast (tl (ys @ [b]))) \<subseteq> set ys"
  by (cases ys) auto

lemma nat_int_pred: "nat (int n - 1) = n - Suc 0"
  by arith

lemma Push_cursor_ok:
  assumes "cursor_ok cs"
  shows "Push cs c = Inr (push_spec cs c)"
  using assms
  by (auto simp: Push_def push_spec_def cursor_ok_def Let_def drop_1_tl simp del: drop_append)

lemma push_spec_top:
  "cursor_ok cs \<Longrightarrow> current (push_spec cs c) = int (length (changes (push_spec cs c))) - 1"
  by (auto simp: push_spec_def cursor_ok_def Let_def)

lemma push_spec_set:
  "set (changes (push_spec cs c)) \<subseteq> set (take (nat (current cs + 1)) (changes cs)) \<union> {c}"
  by (auto simp: push_spec_def Let_def dest: list.set_sel(2)[rotated])

lemma NewChangeStack_ok: "cursor_ok (NewChangeStack m)"
  by (simp add: cursor_ok_def NewChangeStack_def)

lemma push_spec_ok: "cursor_ok cs \<Longrightarrow> cursor_ok (push_spec cs c)"
  by (auto simp: push_spec_def cursor_ok_def Let_def)

text \<open>
  C4. On every stack whose cursor is in range, \<^verbatim>\<open>Push\<close> does not panic and yields the
  stack the specification describes (\<open>push_spec\<close>: redo tail discarded, change appended,
  cursor advanced, oldest change dropped and cursor decremented when the capacity is
  exceeded); the cursor stays in range and nothing can be redone afterwards. After
  \<open>push(a); push(b); undo(); push(c)\<close>, none of which panics, \<open>canRedo()\<close> is false and
  \<open>b\<close>, a change that is neither \<open>a\<close> nor \<open>c\<close> nor part of the earlier history, is nowhere in
  the history.
\<close>

theorem push_truncates_redo_tail:
  assumes ok: "cursor_ok cs"
  shows "Push cs c = Inr (push_spec cs c) \<and> cursor_ok (push_spec cs c) \<and>
         \<not> CanRedo (push_spec cs c) \<and>
         (b \<notin> set (changes cs) \<and> b \<noteq> a \<and> b \<noteq> c \<longrightarrow>
            (\<exists>cs1 cs2 cs3 r cs4. Push cs a = Inr cs1 \<and> Push cs1 b = Inr cs2 \<and>
               Undo cs2 = Inr (cs3, r) \<and> Push cs3 c = Inr cs4 \<and>
               \<not> CanRedo cs4 \<and> b \<notin> set (GetHistory cs4)))"
proof (intro conjI impI)
  show "Push cs c = Inr (push_spec cs c)" by (rule Push_cursor_ok[OF ok])
  show "cursor_ok (push_spec cs c)" by (rule push_spec_ok[OF ok])
  show "\<not> CanRedo (push_spec cs c)"
    using push_spec_top[OF ok, of c] by (simp add: CanRedo_def)
next
  assume b: "b \<notin> set (changes cs) \<and> b \<noteq> a \<and> b \<noteq> c"
  define cs1 where "cs1 = push_spec cs a"
  define cs2 where "cs2 = push_spec cs1 b"
  define cs3 where "cs3 = (if current cs2 < 0 then cs2 else cs2\<lparr>current := current cs2 - 1\<rparr>)"
  define r where "r = (if current cs2 < 0 then None else Some (changes cs2 ! nat (current cs2)))"
  define cs4 where "cs4 = push_spec cs3 c"
  have ok1: "cursor_ok cs1" unfolding cs1_def by (rule push_spec_ok[OF ok])
  have ok2: "cursor_ok cs2" unfolding cs2_def by (rule push_spec_ok[OF ok1])
  have top2: "current cs2 = int (length (changes cs2)) - 1"
    unfolding cs2_def by (rule push_spec_top[OF ok1])
  have ok3: "cursor_ok cs3" using ok2 by (auto simp: cs3_def cursor_ok_def)
  have p1: "Push cs a = Inr cs1" unfolding cs1_def by (rule Push_cursor_ok[OF ok])
  have p2: "Push cs1 b = Inr cs2" unfolding cs2_def by (rule Push_cursor_ok[OF ok1])
  have u: "Undo cs2 = Inr (cs3, r)"
    using ok2 by (auto simp: Undo_def cs3_def r_def cursor_ok_def)
  have p4: "Push cs3 c = Inr cs4" unfolding cs4_def by (rule Push_cursor_ok[OF ok3])
  have nr: "\<not> CanRedo cs4"
    using push_spec_top[OF ok3, of c] by (simp add: CanRedo_def cs4_def)
  have b1: "b \<notin> set (changes cs1)"
    using push_spec_set[of cs a] b by (auto simp: cs1_def dest: in_set_takeD)
  have "set (butlast (changes cs2)) \<subseteq> set (changes cs1)"
    using butlast_tl_snoc[of "take (nat (current cs1 + 1)) (changes cs1)" b]
    by (auto simp: cs2_def push_spec_def Let_def dest: in_set_takeD)
  hence b2: "b \<notin> set (butlast (changes cs2))" using b1 by auto
  have "take (nat (current cs3 + 1)) (changes cs3) = butlast (changes cs2)"
    using top2 by (auto simp: cs3_def butlast_conv_take nat_int_pred)
  hence "b \<notin> set (changes cs4)"
    using push_spec_set[of cs3 c] b b2 by (auto simp: cs4_def)
  with p1 p2 u p4 nr
  show "\<exists>cs1 cs2 cs3 r cs4. Push cs a = Inr cs1 \<and> Push cs1 b = Inr cs2 \<and>
               Undo cs2 = Inr (cs3, r) \<and> Push cs3 c = Inr cs4 \<and>
               \<not> CanRedo cs4 \<and> b \<notin> set (GetHistory cs4)"
    by (auto simp: GetHistory_def)
qed

theorem push_truncates_redo_tail_witness:
  "cursor_ok (NewChangeStack 100) \<and>
   Push (NewChangeStack 100) change_C = Inr \<lparr>changes = [change_C], current = 0, maxSize = 100\<rparr> \<and>
   (\<exists>cs1 cs2 cs3 r cs4.
      Push (NewChangeStack 100) change_A = Inr cs1 \<and> Push cs1 change_B = Inr cs2 \<and>
      Undo cs2 = Inr (cs3, r) \<and> Push cs3 change_C = Inr cs4 \<and>
      \<not> CanRedo cs4 \<and> change_B \<notin> set (GetHistory cs4))"
proof -
  have ok: "cursor_ok (NewChangeStack 100)"
    by (simp add: cursor_ok_def NewChangeStack_def)
  have d: "change_B \<notin> set (changes (NewChangeStack 100)) \<and> change_B \<noteq> change_A \<and> change_B \<noteq> change_C"
    by (simp add: NewChangeStack_def change_A_def change_B_def change_C_def)
  have s: "push_spec (NewChangeStack 100) change_C = \<lparr>changes = [change_C], current = 0, maxSize = 100\<rparr>"
    by (simp add: push_spec_def NewChangeStack_def Let_def)
  show ?thesis
    using push_truncates_redo_tail[OF ok, of change_C change_B change_A] ok d s by simp
qed

text \<open>
  C5. On every stack whose cursor is in range, neither \<^verbatim>\<open>Undo\<close> nor \<^verbatim>\<open>Redo\<close> panics.
  \<^verbatim>\<open>Undo\<close> returns nothing and leaves the stack alone when the cursor is \<open>-1\<close>, and
  otherwise returns the change at the cursor and decrements the cursor. \<^verbatim>\<open>Redo\<close> returns
  nothing and leaves the stack alone when the cursor is at the last index, and otherwise
  increments the cursor and returns the change now pointed to. Whenever \<^verbatim>\<open>Undo\<close> returns
  a change, \<^verbatim>\<open>Redo\<close> right after returns the same change and gives back the stack as it
  was before the \<^verbatim>\<open>Undo\<close>, cursor included; and neither operation changes the stored
  sequence of changes or the capacity.
\<close>

theorem undo_redo_cursor:
  assumes ok: "cursor_ok cs"
  shows "Undo cs = (if current cs = - 1 then Inr (cs, None)
                    else Inr (cs\<lparr>current := current cs - 1\<rparr>,
                              Some (changes cs ! nat (current cs)))) \<and>
         Redo cs = (if current cs = int (length (changes cs)) - 1 then Inr (cs, None)
                    else Inr (cs\<lparr>current := current cs + 1\<rparr>,
                              Some (changes cs ! nat (current cs + 1)))) \<and>
         (\<forall>cs' c. Undo cs = Inr (cs', Some c) \<longrightarrow> Redo cs' = Inr (cs, Some c)) \<and>
         (\<forall>cs' r. Undo cs = Inr (cs', r) \<or> Redo cs = Inr (cs', r) \<longrightarrow>
            changes cs' = changes cs \<and> maxSize cs' = maxSize cs \<and> cursor_ok cs')"
  using ok by (auto simp: Undo_def Redo_def cursor_ok_def Suc_le_eq)

theorem undo_redo_cursor_witness:
  "cursor_ok stack_AB \<and>
   Undo stack_AB = Inr (stack_AB\<lparr>current := 0\<rparr>, Some change_B) \<and>
   Redo (stack_AB\<lparr>current := 0\<rparr>) = Inr (stack_AB, Some change_B) \<and>
   Redo stack_AB = Inr (stack_AB, None)"
proof -
  have ok: "cursor_ok stack_AB" by (simp add: cursor_ok_def stack_AB_def)
  have u: "Undo stack_AB = Inr (stack_AB\<lparr>current := 0\<rparr>, Some change_B)"
    using undo_redo_cursor[OF ok] by (simp add: stack_AB_def)
  have r: "Redo stack_AB = Inr (stack_AB, None)"
    using undo_redo_cursor[OF ok] by (simp add: stack_AB_def)
  show ?thesis using undo_redo_cursor[OF ok] ok u r by auto
qed

section \<open>Theorems: document model\<close>









lemma UpdateEntry_loop_find:
  "allocated h ps \<Longrightarrow>
   UpdateEntry_loop h ps key v =
     Inr (case find (keyMatches h key) ps of
            None \<Rightarrow> (h, False)
          | Some p \<Rightarrow> (h(p \<mapsto> (the (h p))\<lparr>Value := v\<rparr>), True))"
  by (induction ps) (auto simp: allocated_def keyMatches_def)


lemma find_first_index:
  "find P xs = Some p \<Longrightarrow> \<exists>i<length xs. xs ! i = p \<and> P p \<and> (\<forall>j<i. \<not> P (xs ! j))"
  by (auto simp: find_Some_iff)

lemma find_None_list_ex: "(find P xs = None) = (\<not> list_ex P xs)"
  by (auto simp: find_None_iff list_ex_iff)

text \<open>
  C9. On every document without nil pointers, \<^verbatim>\<open>UpdateEntry\<close> does not panic and
  returns true exactly when the document has a key-value entry with the given key. When it
  returns false the store, and with it the document, is unchanged. When it returns true,
  the entry written is the one at the first position whose entry is a key-value entry with
  that key; its value becomes the new value, its type, key, comment, line, exported flag
  and secret flag stay as they were, and every other entry of the store is unchanged. The
  slice of pointers is not written at all.
\<close>

theorem update_changes_first_match_only:
  assumes al: "allocated h (Entries ef)"
  shows "\<exists>h' found. UpdateEntry h ef key v = Inr (h', found) \<and>
           found = list_ex (keyMatches h key) (Entries ef) \<and>
           (\<not> found \<longrightarrow> h' = h) \<and>
           (found \<longrightarrow>
              (\<exists>i p e e'. i < length (Entries ef) \<and> Entries ef ! i = p \<and>
                 keyMatches h key p \<and> (\<forall>j<i. \<not> keyMatches h key (Entries ef ! j)) \<and>
                 h p = Some e \<and> h' p = Some e' \<and> Value e' = v \<and>
                 Type e' = Type e \<and> Key e' = Key e \<and> Comment e' = Comment e \<and>
                 Line e' = Line e \<and> Exported e' = Exported e \<and> IsSecret e' = IsSecret e \<and>
                 (\<forall>q. q \<noteq> p \<longrightarrow> h' q = h q)))"
proof (cases "find (keyMatches h key) (Entries ef)")
  case None
  hence "\<not> list_ex (keyMatches h key) (Entries ef)" by (simp add: find_None_list_ex)
  thus ?thesis
    using al None by (auto simp: UpdateEntry_def UpdateEntry_loop_find)
next
  case (Some p)
  from find_first_index[OF Some] obtain i where
    i: "i < length (Entries ef)" "Entries ef ! i = p" "keyMatches h key p"
       "\<forall>j<i. \<not> keyMatches h key (Entries ef ! j)" by blast
  from i(3) obtain e where e: "h p = Some e" by (auto simp: keyMatches_def split: option.splits)
  have ex: "list_ex (keyMatches h key) (Entries ef)"
    using Some find_None_list_ex[of "keyMatches h key" "Entries ef"] by simp
  have u: "UpdateEntry h ef key v = Inr (h(p \<mapsto> e\<lparr>Value := v\<rparr>), True)"
    using al Some e by (simp add: UpdateEntry_def UpdateEntry_loop_find)
  show ?thesis
    apply (rule exI[of _ "h(p \<mapsto> e\<lparr>Value := v\<rparr>)"], rule exI[of _ True])
    apply (simp add: u ex)
    apply (rule exI[of _ i])
    using i e by simp
qed

lemma demo_allocated: "allocated demo_store (Entries demo_file)"
  by (simp add: allocated_def demo_store_def demo_file_def)

theorem update_changes_first_match_only_witness:
  "allocated demo_store (Entries demo_file) \<and>
   (\<exists>h'. UpdateEntry demo_store demo_file ''DEBUG'' ''1'' = Inr (h', True) \<and>
      h' 11 = Some (entry_debug1\<lparr>Value := ''1''\<rparr>) \<and>
      h' 10 = Some entry_comment \<and> h' 13 = Some entry_debug2) \<and>
   UpdateEntry demo_store demo_file ''MISSING'' ''1'' = Inr (demo_store, False)"
proof -
  have m: "list_ex (keyMatches demo_store ''DEBUG'') (Entries demo_file)"
    by code_simp
  have n: "\<not> list_ex (keyMatches demo_store ''MISSING'') (Entries demo_file)"
    by code_simp
  have i: "\<not> keyMatches demo_store ''DEBUG'' 10" "keyMatches demo_store ''DEBUG'' 11"
    by code_simp+
  from update_changes_first_match_only[OF demo_allocated, of "''DEBUG''" "''1''"]
  obtain h' found where
    u0: "UpdateEntry demo_store demo_file ''DEBUG'' ''1'' = Inr (h', found)"
    and f: "found = list_ex (keyMatches demo_store ''DEBUG'') (Entries demo_file)"
    and imp: "found \<longrightarrow>
              (\<exists>i p e e'. i < length (Entries demo_file) \<and> Entries demo_file ! i = p \<and>
                 keyMatches demo_store ''DEBUG'' p \<and>
                 (\<forall>j<i. \<not> keyMatches demo_store ''DEBUG'' (Entries demo_file ! j)) \<and>
                 demo_store p = Some e \<and> h' p = Some e' \<and> Value e' = ''1'' \<and>
                 Type e' = Type e \<and> Key e' = Key e \<and> Comment e' = Comment e \<and>
                 Line e' = Line e \<and> Exported e' = Exported e \<and> IsSecret e' = IsSecret e \<and>
                 (\<forall>q. q \<noteq> p \<longrightarrow> h' q = demo_store q))"
    by blast
  have found: found using f m by simp
  hence u: "UpdateEntry demo_store demo_file ''DEBUG'' ''1'' = Inr (h', True)" using u0 by simp
  from imp found obtain i p e e' where
    p: "i < length (Entries demo_file)" "Entries demo_file ! i = p"
       "keyMatches demo_store ''DEBUG'' p"
       "\<forall>j<i. \<not> keyMatches demo_store ''DEBUG'' (Entries demo_file ! j)"
    and e: "demo_store p = Some e" "h' p = Some e'" "Value e' = ''1''"
       "Type e' = Type e" "Key e' = Key e" "Comment e' = Comment e" "Line e' = Line e"
       "Exported e' = Exported e" "IsSecret e' = IsSecret e"
    and fr: "\<forall>q. q \<noteq> p \<longrightarrow> h' q = demo_store q"
    by blast
  have "i = 1"
  proof -
    have "i \<noteq> 0"
    proof
      assume "i = 0"
      hence "p = 10" using p(2) by (simp add: demo_file_def)
      thus False using p(3) i(1) by simp
    qed
    moreover have "\<not> 1 < i"
    proof
      assume "1 < i"
      hence "\<not> keyMatches demo_store ''DEBUG'' (Entries demo_file ! 1)" using p(4) by blast
      thus False using i(2) by (simp add: demo_file_def)
    qed
    ultimately show ?thesis by simp
  qed
  hence p11: "p = 11" using p(2) by (simp add: demo_file_def)
  hence "e = entry_debug1" using e(1) by (simp add: demo_store_def)
  hence "e' = entry_debug1\<lparr>Value := ''1''\<rparr>" using e by (simp add: entry_debug1_def)
  hence "h' 11 = Some (entry_debug1\<lparr>Value := ''1''\<rparr>) \<and>
      h' 10 = Some entry_comment \<and> h' 13 = Some entry_debug2"
    using fr p11 e(2) by (simp add: demo_store_def)
  moreover have "UpdateEntry demo_store demo_file ''MISSING'' ''1'' = Inr (demo_store, False)"
    using update_changes_first_match_only[OF demo_allocated, of "''MISSING''" "''1''"] n
    by auto
  ultimately show ?thesis using u demo_allocated by blast
qed





section \<open>Theorems: persistence\<close>

text \<open>Without a failing write, the temporary file receives the serialization.\<close>

lemma write_loop_serialize:
  "allocated h ps \<Longrightarrow> write_fails F = None \<Longrightarrow>
   write_loop h F ps k content = Inr (content @ serialize (map (\<lambda>p. the (h p)) ps), None)"
  by (induction ps arbitrary: k content) (auto simp: allocated_def serialize_def)

lemma copyFile_other: "p \<noteq> dst \<Longrightarrow> fst (copyFile fs F src dst) p = fs p"
  by (simp add: copyFile_def split: option.splits)

lemma createBackup_other:
  "fst (createBackup fs F now path) path = fs path \<and>
   fst (createBackup fs F now path) (path @ ''.tmp'') = fs (path @ ''.tmp'')"
  by (simp add: createBackup_def CreateBackup_def copyFile_other)

text \<open>
  C2, as amended. Whenever \<^verbatim>\<open>WriteFile\<close> reaches the rename and the rename fails, it
  returns the error of the rename, the target path holds what it held before the call, and
  the temporary file \<^verbatim>\<open>path.tmp\<close> is gone if \<^verbatim>\<open>os.Remove\<close> succeeds; if \<^verbatim>\<open>os.Remove\<close> fails
  as well, its error is ignored and the temporary file stays.
\<close>

theorem rename_failure_keeps_target:
  assumes reached: "rename_reached h fs F now envFile"
      and fails: "rename_fails F"
  shows "\<exists>fs'. WriteFile h fs F now envFile =
                 Inr (fs', Some (Errorf ''failed to rename temp file: %w'' (Some os_error))) \<and>
               fs' (Path envFile) = fs (Path envFile) \<and>
               (if remove_fails F then fs' (Path envFile @ ''.tmp'') \<noteq> None
                else fs' (Path envFile @ ''.tmp'') = None)"
proof -
  obtain fs1 where b: "createBackup fs F now (Path envFile) = (fs1, None)"
    using reached by (cases "createBackup fs F now (Path envFile)") (simp add: rename_reached_def)
  have t: "fs1 (Path envFile) = fs (Path envFile)"
    using createBackup_other[of fs F now "Path envFile"] b by simp
  obtain content where w: "write_loop h F (Entries envFile) 0 [] = Inr (content, None)"
    using reached by (auto simp: rename_reached_def split: sum.splits option.splits prod.splits)
  show ?thesis
    using reached fails b w t
    by (simp add: WriteFile_def rename_reached_def Let_def)
qed

theorem rename_failure_keeps_target_witness:
  "rename_reached demo_store demo_fs rename_fault ''20260203-003318'' demo_file \<and>
   rename_fails rename_fault \<and>
   (\<exists>fs'. WriteFile demo_store demo_fs rename_fault ''20260203-003318'' demo_file =
            Inr (fs', Some (Errorf ''failed to rename temp file: %w'' (Some os_error))) \<and>
          fs' ''.env'' = Some (''DEBUG=old'' @ [CHR 0x0A]) \<and> fs' ''.env.tmp'' = None)"
proof -
  have w: "write_loop demo_store rename_fault (Entries demo_file) 0 [] = Inr (demo_text, None)"
    by code_simp
  have p: "Path demo_file = ''.env''" by (simp add: demo_file_def)
  have r: "rename_reached demo_store demo_fs rename_fault ''20260203-003318'' demo_file"
    by (simp add: rename_reached_def w p createBackup_def CreateBackup_def copyFile_def demo_fs_def)
       (simp add: rename_fault_def)
  have f: "rename_fails rename_fault" "\<not> remove_fails rename_fault" by (simp_all add: rename_fault_def)
  show ?thesis
    using rename_failure_keeps_target[OF r f(1)] r f
    by (simp add: p demo_fs_def)
qed

text \<open>
  C2 as stated fails where the removal fails too (a file system that has turned
  read-only, for one): the rename is reached and fails, and the file system after the call
  still holds \<^verbatim>\<open>.env.tmp\<close> with the new text.
\<close>

theorem rename_failure_leaves_tmp_counterexample:
  "rename_reached demo_store demo_fs rename_remove_fault ''20260203-003318'' demo_file \<and>
   rename_fails rename_remove_fault \<and>
   WriteFile demo_store demo_fs rename_remove_fault ''20260203-003318'' demo_file =
     Inr (demo_fs(''.env.backup.20260203-003318'' \<mapsto> ''DEBUG=old'' @ [CHR 0x0A],
                  ''.env.tmp'' \<mapsto> demo_text),
          Some (Errorf ''failed to rename temp file: %w'' (Some os_error)))"
proof -
  have w: "write_loop demo_store rename_remove_fault (Entries demo_file) 0 [] = Inr (demo_text, None)"
    by code_simp
  have p: "Path demo_file = ''.env''" by (simp add: demo_file_def)
  have f: "rename_fails rename_remove_fault" "remove_fails rename_remove_fault"
    "\<not> stat_fails rename_remove_fault" "\<not> open_fails rename_remove_fault"
    "\<not> create_backup_fails rename_remove_fault" "copy_fails rename_remove_fault = None"
    "\<not> create_temp_fails rename_remove_fault" "\<not> sync_fails rename_remove_fault"
    by (simp_all add: rename_remove_fault_def rename_fault_def)
  show ?thesis
    by (simp add: rename_reached_def w p f WriteFile_def createBackup_def CreateBackup_def
          copyFile_def demo_fs_def)
qed

section \<open>Theorems: value reader and line parser\<close>







text \<open>
  C6. The line \<^verbatim>\<open>KEY=value # note\<close> parses to one key-value entry whose value is the text
  before the \<open>#\<close>, trimmed, but whose comment field is empty: \<^verbatim>\<open>parseValue\<close> cuts the value at
  the \<open>#\<close> and returns nothing of what follows, and \<^verbatim>\<open>Parse\<close> never sets the comment of a
  key-value entry. The trailing comment is lost, not reattached.
\<close>

theorem inline_comment_is_dropped:
  "Parse ascii_lib ''KEY=value # note'' =
     ([\<lparr>Type = KeyValueEntry, Key = ''KEY'', Value = ''value'', Comment = [],
         Line = 1, Exported = False, IsSecret = True\<rparr>], None)"
  by code_simp

section \<open>Theorems: round trip\<close>

subsection \<open>TrimSpace\<close>

lemma encodings_nonempty: "e \<in> set space_encodings \<Longrightarrow> e \<noteq> []"
  by (auto simp: space_encodings_def)

lemma leadingSpace_0_iff:
  "(\<forall>e\<in>set E. e \<noteq> []) \<Longrightarrow> (leadingSpace E s = 0) = (\<forall>e\<in>set E. \<not> prefix e s)"
  by (induction E) auto

lemma trailingSpace_0_iff:
  "(\<forall>e\<in>set E. e \<noteq> []) \<Longrightarrow> (trailingSpace E s = 0) = (\<forall>e\<in>set E. \<not> suffix e s)"
  by (induction E) auto

lemma leadingSpace_le: "leadingSpace E s \<le> length s"
  by (induction E) (auto simp: prefix_length_le)

lemma trailingSpace_le: "trailingSpace E s \<le> length s"
  by (induction E) (auto simp: suffix_length_le)

lemma leading_starts: "(leadingSpace space_encodings s = 0) = (\<not> starts_space s)"
  using leadingSpace_0_iff[of space_encodings s] encodings_nonempty
  by (auto simp: starts_space_def)

lemma trailing_ends: "(trailingSpace space_encodings s = 0) = (\<not> ends_space s)"
  using trailingSpace_0_iff[of space_encodings s] encodings_nonempty
  by (auto simp: ends_space_def)

lemma TrimLeftSpace_id: "\<not> starts_space s \<Longrightarrow> TrimLeftSpace s = s"
  by (subst TrimLeftSpace.simps) (simp add: leading_starts)

lemma TrimRightSpace_id: "\<not> ends_space s \<Longrightarrow> TrimRightSpace s = s"
  by (subst TrimRightSpace.simps) (simp add: trailing_ends)

lemma TrimLeftSpace_props: "\<not> starts_space (TrimLeftSpace s) \<and> suffix (TrimLeftSpace s) s"
proof (induction s rule: TrimLeftSpace.induct)
  case (1 s)
  show ?case
  proof (cases "s = [] \<or> leadingSpace space_encodings s = 0")
    case True
    hence "\<not> starts_space s"
      using leading_starts[of s] encodings_nonempty by (auto simp: starts_space_def)
    thus ?thesis by (simp add: TrimLeftSpace_id)
  next
    case False
    have "TrimLeftSpace s = TrimLeftSpace (drop (leadingSpace space_encodings s) s)"
      using False by (subst TrimLeftSpace.simps) simp
    moreover have "suffix (drop (leadingSpace space_encodings s) s) s"
      by (rule suffix_drop)
    ultimately show ?thesis using "1.IH"[OF False] by (auto intro: suffix_order.trans)
  qed
qed

lemma TrimRightSpace_props: "\<not> ends_space (TrimRightSpace s) \<and> prefix (TrimRightSpace s) s"
proof (induction s rule: TrimRightSpace.induct)
  case (1 s)
  show ?case
  proof (cases "s = [] \<or> trailingSpace space_encodings s = 0")
    case True
    hence "\<not> ends_space s"
      using trailing_ends[of s] encodings_nonempty by (auto simp: ends_space_def)
    thus ?thesis by (simp add: TrimRightSpace_id)
  next
    case False
    have "TrimRightSpace s = TrimRightSpace (take (length s - trailingSpace space_encodings s) s)"
      using False by (subst TrimRightSpace.simps) simp
    moreover have "prefix (take (length s - trailingSpace space_encodings s) s) s"
      by (rule take_is_prefix)
    ultimately show ?thesis using "1.IH"[OF False] by (auto intro: prefix_order.trans)
  qed
qed

lemma starts_space_prefix: "prefix p s \<Longrightarrow> starts_space p \<Longrightarrow> starts_space s"
  by (auto simp: starts_space_def intro: prefix_order.trans)

lemma TrimSpace_props:
  "\<not> starts_space (TrimSpace s) \<and> \<not> ends_space (TrimSpace s) \<and> set (TrimSpace s) \<subseteq> set s"
proof -
  have "\<not> starts_space (TrimSpace s)"
    using TrimRightSpace_props[of "TrimLeftSpace s"] TrimLeftSpace_props[of s] starts_space_prefix
    by (auto simp: TrimSpace_def)
  moreover have "set (TrimSpace s) \<subseteq> set s"
    using TrimRightSpace_props[of "TrimLeftSpace s"] TrimLeftSpace_props[of s]
    by (auto simp: TrimSpace_def dest!: set_mono_prefix set_mono_suffix)
  ultimately show ?thesis using TrimRightSpace_props[of "TrimLeftSpace s"] by (simp add: TrimSpace_def)
qed

lemma TrimSpace_id: "\<not> starts_space s \<Longrightarrow> \<not> ends_space s \<Longrightarrow> TrimSpace s = s"
  by (simp add: TrimSpace_def TrimLeftSpace_id TrimRightSpace_id)

lemma TrimSpace_idem: "TrimSpace (TrimSpace s) = TrimSpace s"
  using TrimSpace_props[of s] by (simp add: TrimSpace_id)

lemma TrimSpace_fixed: "TrimSpace s = s \<Longrightarrow> \<not> starts_space s \<and> \<not> ends_space s"
  using TrimSpace_props[of s] by simp

lemma TrimSpace_Nil: "TrimSpace [] = []"
  using TrimSpace_props[of "[]"] by simp

lemma encoding_byte_mem: "e \<in> set space_encodings \<Longrightarrow> c \<in> set e \<Longrightarrow> encoding_byte c"
  by (auto simp: encoding_byte_def list_ex_iff)

lemma not_starts_Cons: "\<not> encoding_byte c \<Longrightarrow> \<not> starts_space (c # rest)"
  using encodings_nonempty encoding_byte_mem
  by (fastforce simp: starts_space_def prefix_Cons)

lemma not_starts_append:
  assumes "\<not> starts_space a" "a \<noteq> []" "\<not> encoding_byte c"
  shows "\<not> starts_space (a @ c # rest)"
proof
  assume "starts_space (a @ c # rest)"
  then obtain e where e: "e \<in> set space_encodings" "prefix e (a @ c # rest)"
    by (auto simp: starts_space_def)
  from e(2) consider "prefix e a" | us where "e = a @ us" "prefix us (c # rest)"
    by (auto simp: prefix_append)
  thus False
  proof cases
    case 1
    thus False using assms(1) e(1) by (auto simp: starts_space_def)
  next
    case 2
    show False
    proof (cases us)
      case Nil
      hence "prefix e a" using 2 by simp
      thus False using assms(1) e(1) by (auto simp: starts_space_def)
    next
      case (Cons u us')
      hence "u = c" using 2(2) by simp
      hence "c \<in> set e" using 2(1) Cons by simp
      thus False using assms(3) encoding_byte_mem[OF e(1)] by blast
    qed
  qed
qed

lemma not_ends_append:
  assumes "\<not> ends_space v" "\<not> encoding_byte c"
  shows "\<not> ends_space (x @ c # v)"
proof
  assume "ends_space (x @ c # v)"
  then obtain e where e: "e \<in> set space_encodings" "suffix e (x @ c # v)"
    by (auto simp: ends_space_def)
  have "suffix e ((x @ [c]) @ v)" using e(2) by simp
  then consider "suffix e v" | xs' where "e = xs' @ v" "suffix xs' (x @ [c])"
    unfolding suffix_append by blast
  thus False
  proof cases
    case 1
    thus False using assms(1) e(1) by (auto simp: ends_space_def)
  next
    case 2
    show False
    proof (cases "xs' = []")
      case True
      hence "suffix e v" using 2(1) by simp
      thus False using assms(1) e(1) by (auto simp: ends_space_def)
    next
      case False
      obtain zs where "x @ [c] = zs @ xs'" using 2(2) by (auto simp: suffix_def)
      hence "last (x @ [c]) = last (zs @ xs')" by simp
      hence "last xs' = c" using False by simp
      hence "c \<in> set xs'" using False last_in_set by metis
      hence "c \<in> set e" using 2(1) by simp
      thus False using assms(2) encoding_byte_mem[OF e(1)] by blast
    qed
  qed
qed

lemma not_encoding_byte:
  "\<not> encoding_byte CHR ''=''" "\<not> encoding_byte CHR ''e''" "\<not> encoding_byte CHR ''#''"
  by (simp_all add: encoding_byte_def space_encodings_def)

subsection \<open>Split, Index\<close>

lemma Split_not_Nil: "Split s sep \<noteq> []"
  by (induction s) (auto split: list.splits)

lemma Split_line:
  "sep \<notin> set l \<Longrightarrow> Split (l @ sep # rest) sep = l # Split rest sep"
  by (induction l) auto

lemma Split_lines_free: "l \<in> set (Split s sep) \<Longrightarrow> sep \<notin> set l"
proof (induction s arbitrary: l)
  case Nil
  thus ?case by simp
next
  case (Cons c cs)
  show ?case
  proof (cases "c = sep")
    case True
    thus ?thesis using Cons by auto
  next
    case False
    obtain x xs where x: "Split cs sep = x # xs"
      using Split_not_Nil[of cs sep] by (cases "Split cs sep") auto
    hence "l = c # x \<or> l \<in> set xs" using Cons.prems False by simp
    thus ?thesis using Cons.IH[of x] Cons.IH[of l] x False by auto
  qed
qed

lemma Split_concat:
  "\<forall>l\<in>set ls. sep \<notin> set l \<Longrightarrow> Split (concat (map (\<lambda>l. l @ [sep]) ls)) sep = ls @ [[]]"
  by (induction ls) (simp_all add: Split_line)

lemma Index_Some:
  "Index s c = Some k \<Longrightarrow> k < length s \<and> s ! k = c \<and> c \<notin> set (take k s)"
proof (induction s arbitrary: k)
  case Nil
  thus ?case by simp
next
  case (Cons x xs)
  show ?case
  proof (cases "x = c")
    case True
    thus ?thesis using Cons.prems by simp
  next
    case False
    then obtain j where j: "Index xs c = Some j" "k = Suc j" using Cons.prems by auto
    thus ?thesis using Cons.IH[OF j(1)] False by simp
  qed
qed

lemma Index_append: "c \<notin> set a \<Longrightarrow> Index (a @ c # rest) c = Some (length a)"
  by (induction a) auto

lemma Index_None: "c \<notin> set s \<Longrightarrow> Index s c = None"
  by (induction s) auto

subsection \<open>Valid keys\<close>

lemma isValidKey_hash: "\<not> isValidKey L (CHR ''#'' # cs)"
  by (simp add: isValidKey_def IsLetter_def IsDigit_def latin1Letter_def)

lemma isValidKey_export: "\<not> isValidKey L (''export '' @ cs)"
  by (simp add: isValidKey_def IsLetter_def IsDigit_def latin1Letter_def)

subsection \<open>Values\<close>

lemma parseValue_plain: "plain_value v \<Longrightarrow> parseValue v lines i = (v, 0)"
  by (cases v) (auto simp: plain_value_def parseValue_def TrimSpace_Nil Index_None Let_def)

subsection \<open>The loop, by steps\<close>

lemma parse_step_next: "i < snd (parse_step L lines i)"
  by (auto simp: parse_step_def Let_def split: option.splits)

lemma Parse_loop_step:
  "i < length lines \<Longrightarrow>
   Parse_loop L lines i acc =
     Parse_loop L lines (snd (parse_step L lines i))
       (acc @ (case fst (parse_step L lines i) of None \<Rightarrow> [] | Some e \<Rightarrow> [e]))"
  by (subst Parse_loop.simps)
     (auto simp: parse_step_def Let_def split_beta split: option.splits)

lemma Parse_loop_done: "\<not> i < length lines \<Longrightarrow> Parse_loop L lines i acc = acc"
  by (subst Parse_loop.simps) simp

subsection \<open>What every parsed entry satisfies\<close>

lemma TrimPrefix_subset: "set (TrimPrefix s p) \<subseteq> set s"
  by (auto simp: TrimPrefix_def dest: in_set_dropD)

lemma parse_step_wf:
  assumes "CHR 0x0A \<notin> set (lines ! i)" and "fst (parse_step L lines i) = Some e"
  shows "wf_entry L e"
proof -
  define line where "line = lines ! i"
  define trimmed where "trimmed = TrimSpace line"
  define rest where
    "rest = (if HasPrefix trimmed ''export '' then TrimSpace (TrimPrefix trimmed ''export '')
             else trimmed)"
  have sub: "set rest \<subseteq> set line"
    using TrimSpace_props[of line] TrimSpace_props[of "TrimPrefix trimmed ''export ''"]
          TrimPrefix_subset[of trimmed "''export ''"]
    by (auto simp: rest_def trimmed_def)
  note defs = parse_step_def rest_def trimmed_def line_def
  show ?thesis
  proof (cases "trimmed = []")
    case True
    thus ?thesis using assms(2) unfolding defs
      by (auto simp: Let_def wf_entry_def)
  next
    case ne: False
    show ?thesis
    proof (cases "HasPrefix trimmed ''#''")
      case True
      thus ?thesis using assms ne unfolding defs
        by (auto simp: Let_def wf_entry_def)
    next
      case nc: False
      show ?thesis
      proof (cases "Index rest CHR ''=''")
        case None
        thus ?thesis using assms(2) ne nc unfolding defs
          by (simp add: Let_def)
      next
        case (Some k)
        define key where "key = TrimSpace (take k rest)"
        have valid: "key \<noteq> [] \<and> isValidKey L key"
          using assms(2) ne nc Some unfolding key_def defs
          by (auto simp: Let_def split: if_splits)
        have "Type e = KeyValueEntry \<and> Key e = key \<and> Comment e = []"
          using assms(2) ne nc Some valid unfolding key_def defs
          by (auto simp: Let_def split: if_splits)
        hence e: "Type e = KeyValueEntry" "Key e = key" "Comment e = []" by simp_all
        have k1: "set key \<subseteq> set (take k rest)"
          using TrimSpace_props[of "take k rest"] by (simp add: key_def)
        have "CHR ''='' \<notin> set (take k rest)" using Index_Some[OF Some] by simp
        hence noeq: "CHR ''='' \<notin> set key" using k1 by blast
        have "set (take k rest) \<subseteq> set line" using sub set_take_subset[of k rest] by blast
        hence nolf: "CHR 0x0A \<notin> set key" using k1 assms(1) by (auto simp: line_def)
        have "TrimSpace key = key" by (simp add: key_def TrimSpace_idem)
        thus ?thesis using valid noeq nolf by (simp add: e wf_entry_def)
      qed
    qed
  qed
qed

lemma Parse_loop_wf:
  assumes "\<forall>l\<in>set lines. CHR 0x0A \<notin> set l"
  shows "list_all (wf_entry L) acc \<Longrightarrow> list_all (wf_entry L) (Parse_loop L lines i acc)"
proof (induction "length lines - i" arbitrary: i acc rule: less_induct)
  case less
  show ?case
  proof (cases "i < length lines")
    case False
    thus ?thesis using less.prems by (simp add: Parse_loop_done)
  next
    case True
    hence lf: "CHR 0x0A \<notin> set (lines ! i)" using assms by simp
    have acc': "list_all (wf_entry L)
                  (acc @ (case fst (parse_step L lines i) of None \<Rightarrow> [] | Some e \<Rightarrow> [e]))"
      using less.prems parse_step_wf[OF lf] by (auto split: option.splits)
    have "length lines - snd (parse_step L lines i) < length lines - i"
      using True parse_step_next[of i L lines] by simp
    from less.hyps[OF this acc'] show ?thesis by (simp add: Parse_loop_step[OF True])
  qed
qed

subsection \<open>Parsing a serialized entry\<close>

lemma kv_line_trimmed:
  assumes "key \<noteq> []" "TrimSpace key = key" "TrimSpace v = v"
  shows "TrimSpace (key @ CHR ''='' # v) = key @ CHR ''='' # v"
  using assms TrimSpace_fixed[of key] TrimSpace_fixed[of v] not_encoding_byte(1)
  by (intro TrimSpace_id not_starts_append not_ends_append) auto

lemma export_line_trimmed:
  assumes "TrimSpace v = v"
  shows "TrimSpace (''export '' @ key @ CHR ''='' # v) = ''export '' @ key @ CHR ''='' # v"
proof -
  have "\<not> ends_space ((''export '' @ key) @ CHR ''='' # v)"
    using assms TrimSpace_fixed[of v] not_encoding_byte(1) by (intro not_ends_append) auto
  moreover have "\<not> starts_space (CHR ''e'' # (''xport '' @ key @ CHR ''='' # v))"
    using not_encoding_byte(2) by (rule not_starts_Cons)
  ultimately show ?thesis by (intro TrimSpace_id) simp_all
qed

lemma kv_line_not_comment:
  assumes "isValidKey L key"
  shows "\<not> HasPrefix (key @ CHR ''='' # v) ''#''"
proof (cases key)
  case Nil
  thus ?thesis by (simp add: HasPrefix_def)
next
  case (Cons c cs)
  thus ?thesis using assms isValidKey_hash[of L cs] by (auto simp: HasPrefix_def)
qed

lemma kv_line_not_export:
  assumes "isValidKey L key"
  shows "\<not> HasPrefix (key @ CHR ''='' # v) ''export ''"
proof
  assume "HasPrefix (key @ CHR ''='' # v) ''export ''"
  hence "prefix ''export '' (key @ CHR ''='' # v)" by (simp add: HasPrefix_def)
  then consider "prefix ''export '' key"
    | us where "''export '' = key @ us" "prefix us (CHR ''='' # v)"
    unfolding prefix_append by blast
  thus False
  proof cases
    case 1
    then obtain cs where "key = ''export '' @ cs" by (auto simp: prefix_def)
    thus False using assms isValidKey_export[of L cs] by simp
  next
    case 2
    show False
    proof (cases us)
      case Nil
      hence "key = ''export '' @ []" using 2(1) by simp
      thus False using assms isValidKey_export[of L "[]"] by simp
    next
      case (Cons u us')
      hence "u = CHR ''=''" using 2(2) by simp
      hence "CHR ''='' \<in> set (key @ us)" using Cons by simp
      thus False unfolding 2(1)[symmetric] by simp
    qed
  qed
qed

lemma step_kv_line:
  assumes "key \<noteq> []" "isValidKey L key" "TrimSpace key = key" "CHR ''='' \<notin> set key"
      and "plain_value v" and "lines ! i = key @ CHR ''='' # v"
  shows "parse_step L lines i =
           (Some \<lparr>Type = KeyValueEntry, Key = key, Value = v, Comment = [],
                  Line = int i + 1, Exported = False, IsSecret = isSecretKey L key\<rparr>, i + 1)"
proof -
  have t: "TrimSpace (key @ CHR ''='' # v) = key @ CHR ''='' # v"
    using assms(1,3,5) by (intro kv_line_trimmed) (simp_all add: plain_value_def)
  show ?thesis
    using assms t kv_line_not_comment[OF assms(2), of v] kv_line_not_export[OF assms(2), of v]
    by (simp add: parse_step_def Let_def Index_append parseValue_plain)
qed

lemma step_export_line:
  assumes "key \<noteq> []" "isValidKey L key" "TrimSpace key = key" "CHR ''='' \<notin> set key"
      and "plain_value v" and "lines ! i = ''export '' @ key @ CHR ''='' # v"
  shows "parse_step L lines i =
           (Some \<lparr>Type = KeyValueEntry, Key = key, Value = v, Comment = [],
                  Line = int i + 1, Exported = True, IsSecret = isSecretKey L key\<rparr>, i + 1)"
proof -
  have v: "TrimSpace v = v" using assms(5) by (simp add: plain_value_def)
  have t: "TrimSpace (key @ CHR ''='' # v) = key @ CHR ''='' # v"
    using assms(1,3) v by (intro kv_line_trimmed) simp_all
  have p: "HasPrefix (''export '' @ key @ CHR ''='' # v) ''export ''"
          "\<not> HasPrefix (''export '' @ key @ CHR ''='' # v) ''#''"
          "TrimPrefix (''export '' @ key @ CHR ''='' # v) ''export '' = key @ CHR ''='' # v"
    by (simp_all add: HasPrefix_def TrimPrefix_def)
  show ?thesis
    using assms t p export_line_trimmed[OF v, of key]
    by (simp add: parse_step_def Let_def Index_append parseValue_plain)
qed

lemma step_serialized:
  assumes "wf_entry L e" "plain_entry e" "lines ! i = String e"
  shows "\<exists>e'. parse_step L lines i = (Some e', i + 1) \<and> same_kv e e'"
proof (cases "Type e")
  case KeyValueEntry
  hence w: "Key e \<noteq> []" "isValidKey L (Key e)" "TrimSpace (Key e) = Key e"
    "CHR ''='' \<notin> set (Key e)" "Comment e = []" and pv: "plain_value (Value e)"
    using assms(1,2) by (simp_all add: wf_entry_def plain_entry_def)
  show ?thesis
  proof (cases "Exported e")
    case True
    hence "lines ! i = ''export '' @ Key e @ CHR ''='' # Value e"
      using assms(3) KeyValueEntry w(5) by (simp add: String_def)
    from step_export_line[OF w(1-4) pv this] show ?thesis
      using KeyValueEntry True by (simp add: same_kv_def)
  next
    case False
    hence "lines ! i = Key e @ CHR ''='' # Value e"
      using assms(3) KeyValueEntry w(5) by (simp add: String_def)
    from step_kv_line[OF w(1-4) pv this] show ?thesis
      using KeyValueEntry False by (simp add: same_kv_def)
  qed
next
  case CommentEntry
  thus ?thesis using assms(1,3)
    by (simp add: wf_entry_def String_def parse_step_def Let_def same_kv_def)
next
  case BlankEntry
  thus ?thesis using assms(3)
    by (simp add: String_def parse_step_def Let_def same_kv_def TrimSpace_Nil)
qed

subsection \<open>The round trip\<close>

lemma String_no_lf:
  assumes "wf_entry L e" "plain_entry e"
  shows "CHR 0x0A \<notin> set (String e)"
  using assms
  by (cases "Type e") (auto simp: wf_entry_def plain_entry_def plain_value_def String_def)

lemma Split_serialize:
  assumes "list_all (wf_entry L) es" "list_all plain_entry es"
  shows "Split (serialize es) CHR 0x0A = map String es @ [[]]"
proof -
  have "serialize es = concat (map (\<lambda>l. l @ [CHR 0x0A]) (map String es))"
    by (simp add: serialize_def comp_def)
  moreover have "\<forall>l\<in>set (map String es). CHR 0x0A \<notin> set l"
    using assms String_no_lf by (auto simp: list_all_iff)
  ultimately show ?thesis using Split_concat[of "map String es" "CHR 0x0A"] by simp
qed

lemma kv_tuples_append: "kv_tuples (xs @ ys) = kv_tuples xs @ kv_tuples ys"
  by (simp add: kv_tuples_def)

lemma kv_tuples_same: "same_kv e e' \<Longrightarrow> kv_tuples [e'] = kv_tuples [e]"
  by (auto simp: kv_tuples_def same_kv_def)

lemma reparse_loop:
  assumes wf: "list_all (wf_entry L) es" and pl: "list_all plain_entry es"
      and ls: "lines = map String es @ [[]]"
  shows "i \<le> length es \<Longrightarrow>
         kv_tuples (Parse_loop L lines i acc) = kv_tuples acc @ kv_tuples (drop i es)"
proof (induction "length es - i" arbitrary: i acc)
  case 0
  hence i: "i = length es" by simp
  hence l: "i < length lines" "lines ! i = []" using ls by (simp_all add: nth_append)
  have st: "parse_step L lines i =
              (Some \<lparr>Type = BlankEntry, Key = [], Value = [], Comment = [],
                     Line = int i + 1, Exported = False, IsSecret = False\<rparr>, i + 1)"
    using l(2) by (simp add: parse_step_def Let_def TrimSpace_Nil)
  have "\<not> i + 1 < length lines" using i ls by simp
  hence "Parse_loop L lines i acc =
           acc @ [\<lparr>Type = BlankEntry, Key = [], Value = [], Comment = [],
                    Line = int i + 1, Exported = False, IsSecret = False\<rparr>]"
    by (simp add: Parse_loop_step[OF l(1)] st Parse_loop_done)
  thus ?case using i by (simp add: kv_tuples_def)
next
  case (Suc n)
  hence i: "i < length es" by simp
  hence l: "i < length lines" "lines ! i = String (es ! i)" using ls by (simp_all add: nth_append)
  have "wf_entry L (es ! i)" "plain_entry (es ! i)"
    using wf pl i by (simp_all add: list_all_length)
  from step_serialized[OF this l(2)] obtain e' where
    st: "parse_step L lines i = (Some e', i + 1)" and same: "same_kv (es ! i) e'" by blast
  have ih: "kv_tuples (Parse_loop L lines (i + 1) (acc @ [e'])) =
            kv_tuples (acc @ [e']) @ kv_tuples (drop (i + 1) es)"
    using Suc.hyps(1)[of "i + 1" "acc @ [e']"] Suc.hyps(2) i by simp
  have d: "drop i es = es ! i # drop (i + 1) es" using i by (simp add: Cons_nth_drop_Suc)
  have "kv_tuples (drop i es) = kv_tuples [es ! i] @ kv_tuples (drop (i + 1) es)"
    unfolding d using kv_tuples_append[of "[es ! i]" "drop (i + 1) es"] by simp
  thus ?case
    using ih kv_tuples_same[OF same]
    by (simp add: Parse_loop_step[OF l(1)] st kv_tuples_append)
qed

text \<open>
  C1, as amended. For every input text: if every key-value entry of the parsed document
  has a plain value (no white space at either end, no \<open>#\<close>, no line feed, no quote as its
  first character), then parsing the serialization of the document succeeds and yields
  the same \<open>(key, value, exported)\<close> tuples in the same order.
\<close>

theorem roundtrip_of_plain_values:
  assumes "list_all plain_entry (fst (Parse L input))"
  shows "snd (Parse L (serialize (fst (Parse L input)))) = None \<and>
         kv_tuples (fst (Parse L (serialize (fst (Parse L input))))) =
         kv_tuples (fst (Parse L input))"
proof -
  define D where "D = fst (Parse L input)"
  have D: "D = Parse_loop L (Split input CHR 0x0A) 0 []" by (simp add: D_def Parse_def)
  have wf: "list_all (wf_entry L) D"
    unfolding D using Split_lines_free[of _ input "CHR 0x0A"]
    by (intro Parse_loop_wf) auto
  have pl: "list_all plain_entry D" using assms by (simp add: D_def)
  have "kv_tuples (Parse_loop L (map String D @ [[]]) 0 []) = kv_tuples [] @ kv_tuples (drop 0 D)"
    by (rule reparse_loop[OF wf pl refl]) simp
  hence "kv_tuples (fst (Parse L (serialize D))) = kv_tuples D"
    by (simp add: Parse_def Split_serialize[OF wf pl] kv_tuples_def)
  thus ?thesis by (simp add: D_def Parse_def)
qed

theorem roundtrip_of_plain_values_witness:
  "list_all plain_entry (fst (Parse ascii_lib roundtrip_input)) \<and>
   kv_tuples (fst (Parse ascii_lib roundtrip_input)) = [(''A'', ''x y'', True), (''B'', ''2'', False)] \<and>
   kv_tuples (fst (Parse ascii_lib (serialize (fst (Parse ascii_lib roundtrip_input))))) =
     [(''A'', ''x y'', True), (''B'', ''2'', False)]"
proof -
  have p: "list_all plain_entry (fst (Parse ascii_lib roundtrip_input))"
    by code_simp
  have k: "kv_tuples (fst (Parse ascii_lib roundtrip_input)) =
           [(''A'', ''x y'', True), (''B'', ''2'', False)]"
    by code_simp
  show ?thesis
    using roundtrip_of_plain_values[OF p] p k by simp
qed

text \<open>
  C1 as stated fails for a value that needs its quotes. \<^verbatim>\<open>K="a#b"\<close> parses to the value
  \<open>a#b\<close>, which is written back without quotes as \<^verbatim>\<open>K=a#b\<close> and read again as \<open>a\<close>. In
  the same way a value with a leading space comes back without it, a value with a line
  feed comes back cut at the line feed, and a value in quote characters comes back
  without them.
\<close>

theorem roundtrip_loses_hash_counterexample:
  "kv_tuples (fst (Parse ascii_lib hash_input)) = [(''K'', ''a#b'', False)] \<and>
   serialize (fst (Parse ascii_lib hash_input)) = ''K=a#b'' @ [CHR 0x0A] \<and>
   kv_tuples (fst (Parse ascii_lib (serialize (fst (Parse ascii_lib hash_input))))) =
     [(''K'', ''a'', False)] \<and>
   kv_tuples (fst (Parse ascii_lib space_input)) = [(''K'', '' a'', False)] \<and>
   kv_tuples (fst (Parse ascii_lib (serialize (fst (Parse ascii_lib space_input))))) =
     [(''K'', ''a'', False)] \<and>
   kv_tuples (fst (Parse ascii_lib newline_input)) = [(''K'', ''a'' @ [CHR 0x0A] @ ''b'', False)] \<and>
   kv_tuples (fst (Parse ascii_lib (serialize (fst (Parse ascii_lib newline_input))))) =
     [(''K'', ''a'', False)] \<and>
   kv_tuples (fst (Parse ascii_lib quote_input)) = [(''K'', [CHR 0x22] @ ''a'' @ [CHR 0x22], False)] \<and>
   kv_tuples (fst (Parse ascii_lib (serialize (fst (Parse ascii_lib quote_input))))) =
     [(''K'', ''a'', False)]"
  by code_simp

section \<open>Theorems: lines that produce no entry\<close>

lemma runes_Nil_iff: "(runes key = []) = (key = [])"
  by (cases key) simp_all

lemma isValidKey_loop_False: "isValidKey_loop L False rs = list_all (ident_rune L) rs"
  by (induction rs) (auto simp: ident_rune_def)

lemma isValidKey_ident_shape: "isValidKey L key = ident_shape L key"
proof (cases "runes key")
  case Nil
  thus ?thesis using runes_Nil_iff[of key] by (simp add: isValidKey_def ident_shape_def)
next
  case (Cons r rs)
  hence "key \<noteq> []" using runes_Nil_iff[of key] by auto
  thus ?thesis using Cons
    by (auto simp: isValidKey_def ident_shape_def isValidKey_loop_False ident_rune_def)
qed

lemma Parse_loop_dropped:
  assumes "i < length lines" and "dropped_line (ident_shape L) (lines ! i)"
  shows "Parse_loop L lines i entries = Parse_loop L lines (i + 1) entries"
  using assms
  by (subst Parse_loop.simps)
     (auto simp: dropped_line_def Let_def isValidKey_ident_shape ident_shape_def
           split: option.splits)

lemma Parse_loop_all_dropped:
  "list_all (dropped_line (ident_shape L)) lines \<Longrightarrow> Parse_loop L lines i entries = entries"
proof (induction "length lines - i" arbitrary: i)
  case 0
  thus ?case by (simp add: Parse_loop_done)
next
  case (Suc n)
  hence i: "i < length lines" by simp
  hence "dropped_line (ident_shape L) (lines ! i)"
    using Suc.prems by (simp add: list_all_length)
  from Parse_loop_dropped[OF i this]
  have "Parse_loop L lines i entries = Parse_loop L lines (i + 1) entries" .
  also have "\<dots> = entries" using Suc.hyps(1)[of "i + 1"] Suc.hyps(2) Suc.prems by simp
  finally show ?case .
qed

lemma parse_step_dropped:
  "dropped_line (ident_shape L) (lines ! i) \<Longrightarrow> fst (parse_step L lines i) = None"
  by (cases "HasPrefix (TrimSpace (lines ! i)) ''export ''")
     (auto simp: dropped_line_def parse_step_def Let_def isValidKey_ident_shape
           split: option.splits)

lemma Parse_loop_count:
  "length (Parse_loop L lines i acc) \<le>
     length acc + length (filter (\<lambda>l. \<not> dropped_line (ident_shape L) l) (drop i lines))"
proof (induction "length lines - i" arbitrary: i acc rule: less_induct)
  case less
  show ?case
  proof (cases "i < length lines")
    case False
    thus ?thesis by (simp add: Parse_loop_done)
  next
    case True
    define j where "j = snd (parse_step L lines i)"
    define new where "new = (case fst (parse_step L lines i) of None \<Rightarrow> [] | Some e \<Rightarrow> [e])"
    have j: "i < j" unfolding j_def by (rule parse_step_next)
    hence "length lines - j < length lines - i" using True by simp
    from less.hyps[OF this[unfolded j_def], of "acc @ new"]
    have ih: "length (Parse_loop L lines j (acc @ new)) \<le>
              length (acc @ new) +
              length (filter (\<lambda>l. \<not> dropped_line (ident_shape L) l) (drop j lines))"
      by (simp add: j_def)
    have d: "drop i lines = lines ! i # drop (Suc i) lines"
      using True by (simp add: Cons_nth_drop_Suc)
    have "drop j lines = drop (j - Suc i) (drop (Suc i) lines)" using j by simp
    hence "length (filter (\<lambda>l. \<not> dropped_line (ident_shape L) l) (drop j lines)) \<le>
           length (filter (\<lambda>l. \<not> dropped_line (ident_shape L) l) (drop (Suc i) lines))"
      by (metis append_take_drop_id filter_append le_add2 length_append)
    moreover have "length new \<le> (if dropped_line (ident_shape L) (lines ! i) then 0 else 1)"
      using parse_step_dropped[of L lines i] by (auto simp: new_def split: option.splits)
    ultimately have "length new +
           length (filter (\<lambda>l. \<not> dropped_line (ident_shape L) l) (drop j lines)) \<le>
           length (filter (\<lambda>l. \<not> dropped_line (ident_shape L) l) (drop i lines))"
      unfolding d by (auto split: if_splits)
    thus ?thesis
      using ih by (simp add: Parse_loop_step[OF True] j_def[symmetric] new_def[symmetric])
  qed
qed

text \<open>
  C7, as amended. For every input text \<^verbatim>\<open>Parse\<close> returns with no error. Whenever its loop
  is at a line that is not blank, not a comment, and that (after an \<^verbatim>\<open>export\<close> prefix is
  stripped) either has no \<open>=\<close> or has a trimmed left-hand side that is not of the shape
  \<open>ident_shape\<close> (a letter or underscore, then letters, digits and underscores, with the
  letters and digits of the \<^verbatim>\<open>unicode\<close> package), it goes on to the next line with the
  entries unchanged: the line produces no entry. The document has at most one entry for
  each line that is not such a line, and a text of such lines only parses to the empty
  document.
\<close>

theorem invalid_lines_produce_no_entry:
  "snd (Parse L input) = None \<and>
   (\<forall>i entries. i < length (Split input CHR 0x0A) \<and>
        dropped_line (ident_shape L) (Split input CHR 0x0A ! i) \<longrightarrow>
      Parse_loop L (Split input CHR 0x0A) i entries =
      Parse_loop L (Split input CHR 0x0A) (i + 1) entries) \<and>
   length (fst (Parse L input)) \<le>
     length (filter (\<lambda>l. \<not> dropped_line (ident_shape L) l) (Split input CHR 0x0A)) \<and>
   (list_all (dropped_line (ident_shape L)) (Split input CHR 0x0A) \<longrightarrow> fst (Parse L input) = [])"
  using Parse_loop_dropped Parse_loop_all_dropped
        Parse_loop_count[of L "Split input CHR 0x0A" 0 "[]"]
  by (simp add: Parse_def)

theorem invalid_lines_produce_no_entry_witness:
  "list_all (dropped_line (ident_shape ascii_lib)) (Split junk_text CHR 0x0A) \<and>
   Split junk_text CHR 0x0A = [''not a pair'', ''1BAD=x'', ''export =y''] \<and>
   Parse ascii_lib junk_text = ([], None)"
proof -
  have s: "Split junk_text CHR 0x0A = [''not a pair'', ''1BAD=x'', ''export =y'']"
    by code_simp
  have d: "list_all (dropped_line (ident_shape ascii_lib)) (Split junk_text CHR 0x0A)"
    unfolding s by code_simp
  show ?thesis
    using invalid_lines_produce_no_entry[of ascii_lib junk_text] s d
    by (simp add: prod_eq_iff)
qed

text \<open>
  C7 as stated fails for a key outside ASCII. The left-hand side of the line
  \<open>eacute_line\<close> (bytes C3 A9 3D 31: e with acute accent, \<open>=\<close>, \<open>1\<close>) does not match
  \<^verbatim>\<open>[A-Za-z_][A-Za-z0-9_]*\<close>, so the specification has the line dropped; but
  \<^verbatim>\<open>unicode.IsLetter\<close> holds of U+00E9 and the line produces an entry. The evaluation
  does not reach the tables beyond Latin-1.
\<close>

theorem unicode_key_accepted_counterexample:
  "dropped_line ascii_ident eacute_line \<and>
   Parse ascii_lib eacute_line =
     ([\<lparr>Type = KeyValueEntry, Key = [CHR 0xC3, CHR 0xA9], Value = ''1'', Comment = [],
         Line = 1, Exported = False, IsSecret = False\<rparr>], None)"
  by code_simp

end
